theory Spec2Isabelle
  imports Main "HOL-Library.Sublist"
begin

section \<open>Paths: the functions of \<open>os.path\<close> the two scripts call\<close>

text \<open>
  Paths are Python strings. The scripts only call library functions on them
  (\<open>os.path.join\<close>, \<open>dirname\<close>, \<open>basename\<close>, \<open>splitext\<close>, \<open>relpath\<close>, \<open>exists\<close>);
  these are written out here after CPython's \<open>posixpath\<close>/\<open>genericpath\<close>, with \<open>/\<close> as
  the only separator. Drive letters and the second separator of \<open>ntpath\<close> are not
  represented. \<open>os.getcwd()\<close>, which \<open>relpath\<close> reads through \<open>abspath\<close>, is the
  parameter \<open>cwd\<close>.
\<close>

type_synonym path = string

definition sep :: char where
  "sep = CHR ''/''"

definition extsep :: char where
  "extsep = CHR ''.''"

definition rstrip :: "char \<Rightarrow> string \<Rightarrow> string" where
  "rstrip c p = rev (dropWhile (\<lambda>x. x = c) (rev p))"

definition lstrip :: "char \<Rightarrow> string \<Rightarrow> string" where
  "lstrip c p = dropWhile (\<lambda>x. x = c) p"

text \<open>\<open>p[:p.rfind(sep) + 1]\<close> and \<open>p[p.rfind(sep) + 1:]\<close>.\<close>

definition head_part :: "path \<Rightarrow> string" where
  "head_part p = rev (dropWhile (\<lambda>x. x \<noteq> sep) (rev p))"

definition basename :: "path \<Rightarrow> string" where
  "basename p = rev (takeWhile (\<lambda>x. x \<noteq> sep) (rev p))"

definition dirname :: "path \<Rightarrow> path" where
  "dirname p =
     (let head = head_part p
      in if head \<noteq> [] \<and> head \<noteq> replicate (length head) sep then rstrip sep head else head)"

definition join :: "path \<Rightarrow> path \<Rightarrow> path" where
  "join a b =
     (if b \<noteq> [] \<and> hd b = sep then b
      else if a = [] \<or> last a = sep then a @ b
      else a @ [sep] @ b)"

text \<open>
  \<open>splitext\<close>: the extension starts at the last dot of the last component, unless that
  component has only dots before it.
\<close>

definition splitext :: "path \<Rightarrow> path \<times> string" where
  "splitext p =
     (let name = basename p
      in if extsep \<in> set name then
           (let ext = rev (takeWhile (\<lambda>x. x \<noteq> extsep) (rev name));
                stem = take (length name - length ext - 1) name
            in if list_ex (\<lambda>x. x \<noteq> extsep) stem
               then (take (length p - length ext - 1) p, extsep # ext)
               else (p, []))
         else (p, []))"

text \<open>\<open>str.lower\<close>, on the ASCII letters.\<close>

definition lower_char :: "char \<Rightarrow> char" where
  "lower_char c =
     (case map_of (zip ''ABCDEFGHIJKLMNOPQRSTUVWXYZ'' ''abcdefghijklmnopqrstuvwxyz'') c of
        Some l \<Rightarrow> l
      | None \<Rightarrow> c)"

definition lower :: "string \<Rightarrow> string" where
  "lower s = map lower_char s"

text \<open>\<open>str.split(sep)\<close> and \<open>sep.join(list)\<close>.\<close>

fun split_on :: "char \<Rightarrow> string \<Rightarrow> string list" where
  "split_on c [] = [[]]"
| "split_on c (x # xs) =
     (if x = c then [] # split_on c xs
      else (case split_on c xs of
              [] \<Rightarrow> [[x]]
            | w # ws \<Rightarrow> (x # w) # ws))"

fun sep_join :: "string list \<Rightarrow> string" where
  "sep_join [] = []"
| "sep_join [x] = x"
| "sep_join (x # y # ys) = x @ [sep] @ sep_join (y # ys)"

definition isabs :: "path \<Rightarrow> bool" where
  "isabs p = (p \<noteq> [] \<and> hd p = sep)"

text \<open>One step of the loop of \<open>normpath\<close> over the components.\<close>

definition norm_step :: "bool \<Rightarrow> string list \<Rightarrow> string \<Rightarrow> string list" where
  "norm_step initial_slashes new_comps part =
     (if part = [] \<or> part = ''.'' then new_comps
      else if part \<noteq> ''..'' \<or> (\<not> initial_slashes \<and> new_comps = [])
              \<or> (new_comps \<noteq> [] \<and> last new_comps = ''..'')
           then new_comps @ [part]
      else if new_comps \<noteq> [] then butlast new_comps
      else new_comps)"

definition normpath :: "path \<Rightarrow> path" where
  "normpath p =
     (if p = [] then ''.''
      else
        (let initial_slashes = (if \<not> isabs p then 0
                                else if take 2 p = ''//'' \<and> take 3 p \<noteq> ''///'' then 2
                                else (1::nat));
             comps = foldl (norm_step (0 < initial_slashes)) [] (split_on sep p);
             q = replicate initial_slashes sep @ sep_join comps
         in if q = [] then ''.'' else q))"

definition abspath :: "path \<Rightarrow> path \<Rightarrow> path" where
  "abspath cwd p = normpath (if isabs p then p else join cwd p)"

fun commonprefix :: "string list \<Rightarrow> string list \<Rightarrow> string list" where
  "commonprefix (x # xs) (y # ys) = (if x = y then x # commonprefix xs ys else [])"
| "commonprefix _ _ = []"

definition path_list :: "path \<Rightarrow> path \<Rightarrow> string list" where
  "path_list cwd p =
     (let tail = lstrip sep (abspath cwd p)
      in if tail = [] then [] else split_on sep tail)"

definition relpath :: "path \<Rightarrow> path \<Rightarrow> path \<Rightarrow> path" where
  "relpath cwd p start =
     (let start_list = path_list cwd start;
          p_list = path_list cwd p;
          i = length (commonprefix start_list p_list);
          rel_list = replicate (length start_list - i) ''..'' @ drop i p_list
      in if rel_list = [] then ''.'' else sep_join rel_list)"

text \<open>
  The ancestor directories of a path, nearest first: what \<open>os.makedirs\<close> creates
  below its leaf.
\<close>

function parents :: "path \<Rightarrow> path list" where
  "parents p =
     (if dirname p \<noteq> [] \<and> length (dirname p) < length p
      then dirname p # parents (dirname p) else [])"
  by pat_completeness auto
termination
  by (relation "measure length") auto

declare parents.simps [simp del]

section \<open>The world the scripts act on\<close>

text \<open>
  A file holds either the bytes it was given or the PDF an Office application rendered
  from a source path.
\<close>

datatype app = Word | Excel | PowerPoint

datatype content = Bytes string | Pdf app path

datatype level = INFO | ERROR

text \<open>
  Exceptions, with the text \<open>str(e)\<close> gives. \<open>except Exception\<close> catches all four;
  \<open>except oci.exceptions.ServiceError\<close> only the third.
\<close>

datatype exn = OSError string | ComError string | ServiceError string | OtherError string

fun str :: "exn \<Rightarrow> string" where
  "str (OSError m) = m"
| "str (ComError m) = m"
| "str (ServiceError m) = m"
| "str (OtherError m) = m"

text \<open>
  Every call that leaves the script is recorded, in order: a line handed to \<open>logging\<close>
  (the scripts' \<open>print_info\<close>, \<open>print_error\<close>, \<open>print_success\<close>; the console copy of the
  same line is not recorded), a bare \<open>print\<close>, the file-system calls (the listing of a
  directory by \<open>os.walk\<close> among them), one run of an Office
  application on a document (\<open>Dispatch\<close>, open, save as PDF, close, quit), and the calls
  of the object-storage client.
\<close>

datatype event =
    Log level string
  | Print string
  | Scandir path
  | Makedirs path
  | Move path path
  | Copy path path
  | Convert app path path
  | Client_init
  | Get_bucket string string
  | Open_rb path
  | Put_object string string string path

record state =
  fs :: "path \<rightharpoonup> content"
  dirs :: "path set"
  trace :: "event list"

text \<open>
  What the outside does is not the script's to decide: \<open>os_raises w t e\<close> says whether
  the call \<open>e\<close>, made after \<open>t\<close> earlier events, raises, and \<open>com_outcome\<close> how a run of
  an Office application ends: converted, or an exception before or after the PDF was
  written. A move or a copy of a file (\<open>transfer\<close>) completes, is refused before anything
  was written, or raises after the destination was written (\<open>shutil.move\<close> falls back on
  copy and unlink when the rename is refused, and the unlink can fail; \<open>shutil.copy\<close> sets
  the mode after the content). \<open>aliases\<close> says which different spellings name one file,
  and \<open>scandir\<close> the names \<open>os.walk\<close> looks at when it lists a directory, in the order of
  the listing: the names of directories and the names of files. What is listed is what
  is there at that moment.
\<close>

datatype conv_outcome = Converted | Raised_before_save exn | Raised_after_save exn

datatype transfer_outcome = Completed | Refused exn | Raised_after_copy exn

record world =
  com_outcome :: "nat \<Rightarrow> app \<Rightarrow> path \<Rightarrow> path \<Rightarrow> conv_outcome"
  os_raises :: "nat \<Rightarrow> event \<Rightarrow> exn option"
  transfer :: "nat \<Rightarrow> event \<Rightarrow> transfer_outcome"
  aliases :: "path \<Rightarrow> path \<Rightarrow> bool"
  scandir :: "nat \<Rightarrow> path \<Rightarrow> string list \<times> string list"

text \<open>A statement either completes or raises; the state reached is kept in both cases.\<close>

datatype outcome = Done state | Raised exn state

fun state_of :: "outcome \<Rightarrow> state" where
  "state_of (Done s) = s"
| "state_of (Raised e s) = s"

fun is_raised :: "outcome \<Rightarrow> bool" where
  "is_raised (Done s) = False"
| "is_raised (Raised e s) = True"

definition emit :: "event \<Rightarrow> state \<Rightarrow> state" where
  "emit e s = s\<lparr>trace := trace s @ [e]\<rparr>"

definition exists :: "state \<Rightarrow> path \<Rightarrow> bool" where
  "exists s p = (case fs s p of Some d \<Rightarrow> True | None \<Rightarrow> p \<in> dirs s)"

text \<open>
  \<open>os.makedirs(p, exist_ok=True)\<close>: nothing to do for a directory that is there, an error
  for the empty path, and otherwise the leaf and every ancestor are created unless the
  system refuses.
\<close>

definition os_makedirs :: "world \<Rightarrow> path \<Rightarrow> state \<Rightarrow> outcome" where
  "os_makedirs w p s =
     (if p = [] then Raised (OSError ''No such file or directory'') (emit (Makedirs p) s)
      else if p \<in> dirs s then Done (emit (Makedirs p) s)
      else (case os_raises w (length (trace s)) (Makedirs p) of
              Some e \<Rightarrow> Raised e (emit (Makedirs p) s)
            | None \<Rightarrow> Done (emit (Makedirs p) (s\<lparr>dirs := dirs s \<union> set (p # parents p)\<rparr>))))"

text \<open>
  \<open>os.path.samefile\<close>, and the path a file really gets when \<open>shutil.move\<close> or
  \<open>shutil.copy\<close> is given \<open>dst\<close>: a destination that is an existing directory receives the
  file inside it, under the name \<open>base\<close>.
\<close>

definition samefile :: "world \<Rightarrow> path \<Rightarrow> path \<Rightarrow> bool" where
  "samefile w p q = (p = q \<or> aliases w p q)"

definition real_dst :: "state \<Rightarrow> string \<Rightarrow> path \<Rightarrow> path" where
  "real_dst s base dst = (if dst \<in> dirs s then join dst base else dst)"

text \<open>
  \<open>shutil.move(src, dst)\<close> for a regular file \<open>src\<close>. Into an existing directory the move
  raises when the name is taken there. A missing source raises. Renaming a file to
  itself changes nothing. Otherwise the file is renamed, or copied and unlinked; an
  exception can come before anything was written or after the copy, with the source
  still in place.
\<close>

definition shutil_move :: "world \<Rightarrow> path \<Rightarrow> path \<Rightarrow> state \<Rightarrow> outcome" where
  "shutil_move w src dst s =
     (let target = real_dst s (basename (rstrip sep src)) dst
      in if dst \<in> dirs s \<and> exists s target then
           Raised (OSError (''Destination path '' @ [CHR 0x27] @ target @ [CHR 0x27]
                             @ '' already exists'')) (emit (Move src dst) s)
         else if fs s src = None then
           Raised (OSError ''No such file or directory'') (emit (Move src dst) s)
         else (case transfer w (length (trace s)) (Move src dst) of
                 Refused e \<Rightarrow> Raised e (emit (Move src dst) s)
               | Raised_after_copy e \<Rightarrow>
                   Raised e (emit (Move src dst)
                     (if samefile w src target then s
                      else s\<lparr>fs := (fs s)(target := fs s src)\<rparr>))
               | Completed \<Rightarrow>
                   Done (emit (Move src dst)
                     (if samefile w src target then s
                      else s\<lparr>fs := ((fs s)(src := None))(target := fs s src)\<rparr>))))"

text \<open>
  \<open>shutil.copy(src, dst)\<close>: into an existing directory under the source's base name;
  copying a file onto itself raises.
\<close>

definition shutil_copy :: "world \<Rightarrow> path \<Rightarrow> path \<Rightarrow> state \<Rightarrow> outcome" where
  "shutil_copy w src dst s =
     (let target = real_dst s (basename src) dst
      in if fs s src = None then
           Raised (OSError ''No such file or directory'') (emit (Copy src dst) s)
         else if samefile w src target then
           Raised (OSError ([CHR 0x27] @ src @ [CHR 0x27] @ '' and '' @ [CHR 0x27] @ target
                             @ [CHR 0x27] @ '' are the same file''))
             (emit (Copy src dst) s)
         else (case transfer w (length (trace s)) (Copy src dst) of
                 Refused e \<Rightarrow> Raised e (emit (Copy src dst) s)
               | Raised_after_copy e \<Rightarrow>
                   Raised e (emit (Copy src dst) (s\<lparr>fs := (fs s)(target := fs s src)\<rparr>))
               | Completed \<Rightarrow>
                   Done (emit (Copy src dst) (s\<lparr>fs := (fs s)(target := fs s src)\<rparr>))))"

text \<open>One run of an Office application: the five COM calls of a handler's \<open>try\<close> body.\<close>

definition office_export :: "world \<Rightarrow> app \<Rightarrow> path \<Rightarrow> path \<Rightarrow> state \<Rightarrow> outcome" where
  "office_export w a input_path output_path s =
     (case com_outcome w (length (trace s)) a input_path output_path of
        Converted \<Rightarrow>
          Done (emit (Convert a input_path output_path)
                  (s\<lparr>fs := (fs s)(output_path \<mapsto> Pdf a input_path)\<rparr>))
      | Raised_before_save e \<Rightarrow> Raised e (emit (Convert a input_path output_path) s)
      | Raised_after_save e \<Rightarrow>
          Raised e (emit (Convert a input_path output_path)
                      (s\<lparr>fs := (fs s)(output_path \<mapsto> Pdf a input_path)\<rparr>)))"

section \<open>\<open>convert_office_to_pdf.py\<close>\<close>

text \<open>
  The module's globals \<open>output_base_folder\<close> and \<open>processed_base_folder\<close>, set from the
  command line before the run, and the working directory \<open>relpath\<close> reads. The start of
  the script (argument parsing, creation of the base folders, logging set-up) and
  \<open>force_quit_word\<close>, which nothing calls, are left out. \<open>relpath\<close> raises on an empty
  path; \<open>os.path.join(root, filename)\<close> with a file name from \<open>os.walk\<close> is never empty.
\<close>

record config =
  output_base_folder :: path
  processed_base_folder :: path
  getcwd :: path

definition print_info :: "string \<Rightarrow> state \<Rightarrow> state" where
  "print_info info_message s = emit (Log INFO info_message) s"

definition print_error :: "string \<Rightarrow> state \<Rightarrow> state" where
  "print_error error_message s = emit (Log ERROR error_message) s"

definition print_success :: "string \<Rightarrow> state \<Rightarrow> state" where
  "print_success success_message s = emit (Log INFO success_message) s"

definition move_to_processed :: "world \<Rightarrow> config \<Rightarrow> path \<Rightarrow> path \<Rightarrow> state \<Rightarrow> outcome" where
  "move_to_processed w c file_path rel_path s =
     (let processed_path = join (processed_base_folder c) rel_path
      in case os_makedirs w (dirname processed_path) s of
           Raised e s1 \<Rightarrow> Raised e s1
         | Done s1 \<Rightarrow>
             (case shutil_move w file_path processed_path s1 of
                Done s2 \<Rightarrow> Done (print_info (''Moved to Processed: '' @ rel_path) s2)
              | Raised e s2 \<Rightarrow>
                  Done (print_error (''Error moving file '' @ file_path @ '': '' @ str e) s2)))"

definition copy_to_output :: "world \<Rightarrow> config \<Rightarrow> path \<Rightarrow> path \<Rightarrow> state \<Rightarrow> outcome" where
  "copy_to_output w c file_path rel_path s =
     (let processed_path = join (processed_base_folder c) rel_path
      in case os_makedirs w (dirname processed_path) s of
           Raised e s1 \<Rightarrow> Raised e s1
         | Done s1 \<Rightarrow>
             (case shutil_copy w file_path processed_path s1 of
                Done s2 \<Rightarrow> Done (print_info (''Copy to Output: '' @ rel_path) s2)
              | Raised e s2 \<Rightarrow>
                  Done (print_error (''Error copying file '' @ file_path @ '': '' @ str e) s2)))"

text \<open>Decimal text of an integer, for \<open>f"{attempt+1}"\<close>.\<close>

fun str_nat :: "nat \<Rightarrow> string" where
  "str_nat n =
     (if n < 10 then [''0123456789'' ! n]
      else str_nat (n div 10) @ [''0123456789'' ! (n mod 10)])"

declare str_nat.simps [simp del]

definition str_int :: "int \<Rightarrow> string" where
  "str_int i = (if i < 0 then CHR ''-'' # str_nat (nat (- i)) else str_nat (nat i))"

text \<open>
  \<open>convert_word_to_pdf\<close>: \<open>word_try\<close> is the body of the \<open>try\<close>, \<open>word_attempts\<close> the
  \<open>for\<close> loop over the attempts still to come, leaving at \<open>break\<close> or at \<open>raise\<close>.
\<close>

definition word_try :: "world \<Rightarrow> config \<Rightarrow> path \<Rightarrow> path \<Rightarrow> path \<Rightarrow> state \<Rightarrow> outcome" where
  "word_try w c input_path output_path rel_path s =
     (case office_export w Word input_path output_path s of
        Raised e s1 \<Rightarrow> Raised e s1
      | Done s1 \<Rightarrow>
          move_to_processed w c input_path rel_path
            (print_success (''Word converted: '' @ rel_path @ '' -> '' @ basename output_path) s1))"

fun word_attempts ::
  "world \<Rightarrow> config \<Rightarrow> int list \<Rightarrow> path \<Rightarrow> path \<Rightarrow> path \<Rightarrow> state \<Rightarrow> outcome" where
  "word_attempts w c [] input_path output_path rel_path s = Done s"
| "word_attempts w c (attempt # rest) input_path output_path rel_path s =
     (case word_try w c input_path output_path rel_path s of
        Done s1 \<Rightarrow> Done s1
      | Raised e s1 \<Rightarrow>
          (let s2 = print_error (''Error converting Word file '' @ rel_path @ '': '' @ str e) s1;
               s3 = print_info (''Retrying attempt #'' @ str_int (attempt + 1) @ ''/3'') s2
           in if attempt > 3
              then Raised e (print_error (''Failed to convert Word file '' @ rel_path @ '': '' @ str e) s3)
              else word_attempts w c rest input_path output_path rel_path s3))"

definition convert_word_to_pdf ::
  "world \<Rightarrow> config \<Rightarrow> path \<Rightarrow> path \<Rightarrow> path \<Rightarrow> state \<Rightarrow> outcome" where
  "convert_word_to_pdf w c input_path output_path rel_path s =
     word_attempts w c (map int [0..<3]) input_path output_path rel_path s"

definition convert_excel_to_pdf ::
  "world \<Rightarrow> config \<Rightarrow> path \<Rightarrow> path \<Rightarrow> path \<Rightarrow> state \<Rightarrow> outcome" where
  "convert_excel_to_pdf w c input_path output_path rel_path s =
     (case (case office_export w Excel input_path output_path s of
              Raised e s1 \<Rightarrow> Raised e s1
            | Done s1 \<Rightarrow>
                move_to_processed w c input_path rel_path
                  (print_success (''Excel converted: '' @ rel_path @ '' -> '' @ basename output_path) s1))
      of Done s2 \<Rightarrow> Done s2
       | Raised e s2 \<Rightarrow>
           Done (print_error (''Error converting Excel file '' @ rel_path @ '': '' @ str e) s2))"

definition convert_powerpoint_to_pdf ::
  "world \<Rightarrow> config \<Rightarrow> path \<Rightarrow> path \<Rightarrow> path \<Rightarrow> state \<Rightarrow> outcome" where
  "convert_powerpoint_to_pdf w c input_path output_path rel_path s =
     (case (case office_export w PowerPoint input_path output_path s of
              Raised e s1 \<Rightarrow> Raised e s1
            | Done s1 \<Rightarrow>
                move_to_processed w c input_path rel_path
                  (print_success
                     (''PowerPoint converted: '' @ rel_path @ '' -> '' @ basename output_path) s1))
      of Done s2 \<Rightarrow> Done s2
       | Raised e s2 \<Rightarrow>
           Done (print_error (''Error converting PowerPoint file '' @ rel_path @ '': '' @ str e) s2))"

text \<open>
  \<open>convert_office_files_recursively\<close>: \<open>convert_office_file\<close> is the body of the inner
  loop, \<open>convert_office_files\<close> the inner loop over one directory's files. An exception
  that reaches the loops ends the run.
\<close>

definition output_pdf_path_of :: "config \<Rightarrow> path \<Rightarrow> path" where
  "output_pdf_path_of c rel_path =
     join (output_base_folder c) (fst (splitext rel_path) @ ''.pdf'')"

definition convert_office_file ::
  "world \<Rightarrow> config \<Rightarrow> path \<Rightarrow> path \<Rightarrow> string \<Rightarrow> state \<Rightarrow> outcome" where
  "convert_office_file w c input_folder root filename s =
     (let file_path = join root filename;
          rel_path = relpath (getcwd c) file_path input_folder;
          output_pdf_path = output_pdf_path_of c rel_path
      in case os_makedirs w (dirname output_pdf_path) s of
           Raised e s1 \<Rightarrow> Raised e s1
         | Done s1 \<Rightarrow>
             if exists s1 output_pdf_path then
               move_to_processed w c file_path rel_path
                 (print_info (''Skipping (already converted): '' @ rel_path) s1)
             else
               (let file_ext = lower (snd (splitext filename))
                in if file_ext \<in> set [''.doc'', ''.docx''] then
                     convert_word_to_pdf w c file_path output_pdf_path rel_path s1
                   else if file_ext \<in> set [''.xls'', ''.xlsx''] then
                     convert_excel_to_pdf w c file_path output_pdf_path rel_path s1
                   else if file_ext \<in> set [''.ppt'', ''.pptx''] then
                     convert_powerpoint_to_pdf w c file_path output_pdf_path rel_path s1
                   else
                     (case copy_to_output w c file_path output_pdf_path
                             (print_info (''Skipping (unsupported file): '' @ rel_path) s1) of
                        Raised e s2 \<Rightarrow> Raised e s2
                      | Done s2 \<Rightarrow> move_to_processed w c file_path rel_path s2)))"

fun convert_office_files ::
  "world \<Rightarrow> config \<Rightarrow> path \<Rightarrow> path \<Rightarrow> string list \<Rightarrow> state \<Rightarrow> outcome" where
  "convert_office_files w c input_folder root [] s = Done s"
| "convert_office_files w c input_folder root (filename # files) s =
     (case convert_office_file w c input_folder root filename s of
        Raised e s1 \<Rightarrow> Raised e s1
      | Done s1 \<Rightarrow> convert_office_files w c input_folder root files s1)"

text \<open>
  The outer loop runs over \<open>os.walk(input_folder)\<close>, top down. \<open>os.walk\<close> lists a directory
  only when the loop asks for it: \<open>walk_from\<close> lists \<open>root\<close> in the state the run has reached
  (of the names the world gives, the files and the directories that exist then), the
  loop body handles the files found there, and \<open>walk_into\<close> then goes into the directories
  that were found, one after the other, each listed when its turn comes. A file the run
  has moved into a directory not yet listed is found again there. The first argument
  bounds the depth of the walk; \<open>None\<close> says the bound was too small.
\<close>

fun walk_from ::
    "nat \<Rightarrow> world \<Rightarrow> config \<Rightarrow> path \<Rightarrow> path \<Rightarrow> state \<Rightarrow> outcome option"
  and walk_into ::
    "nat \<Rightarrow> world \<Rightarrow> config \<Rightarrow> path \<Rightarrow> path \<Rightarrow> string list \<Rightarrow> state \<Rightarrow> outcome option"
where
  "walk_from 0 w c input_folder root s = None"
| "walk_from (Suc n) w c input_folder root s =
     (case scandir w (length (trace s)) root of
        (subdirs, files) \<Rightarrow>
          (case convert_office_files w c input_folder root
                  (filter (\<lambda>f. fs s (join root f) \<noteq> None) files) (emit (Scandir root) s) of
             Raised e s1 \<Rightarrow> Some (Raised e s1)
           | Done s1 \<Rightarrow>
               walk_into n w c input_folder root
                 (filter (\<lambda>d. join root d \<in> dirs s) subdirs) s1))"
| "walk_into n w c input_folder root [] s = Some (Done s)"
| "walk_into n w c input_folder root (d # ds) s =
     (case walk_from n w c input_folder (join root d) s of
        None \<Rightarrow> None
      | Some (Raised e s1) \<Rightarrow> Some (Raised e s1)
      | Some (Done s1) \<Rightarrow> walk_into n w c input_folder root ds s1)"

definition convert_office_files_recursively ::
  "nat \<Rightarrow> world \<Rightarrow> config \<Rightarrow> path \<Rightarrow> state \<Rightarrow> outcome option" where
  "convert_office_files_recursively depth w c input_folder s =
     walk_from depth w c input_folder input_folder s"

section \<open>\<open>upload_pdf_to_oci_bucket.py\<close>\<close>

text \<open>
  The calls of the object-storage client and \<open>open(file_path, "rb")\<close>. Each raises when
  the outside says so; opening a file that is not there raises by itself.
\<close>

definition external :: "world \<Rightarrow> event \<Rightarrow> state \<Rightarrow> outcome" where
  "external w e s =
     (case os_raises w (length (trace s)) e of
        Some x \<Rightarrow> Raised x (emit e s)
      | None \<Rightarrow> Done (emit e s))"

definition open_rb :: "world \<Rightarrow> path \<Rightarrow> state \<Rightarrow> outcome" where
  "open_rb w file_path s =
     (if fs s file_path = None
      then Raised (OSError ''No such file or directory'') (emit (Open_rb file_path) s)
      else external w (Open_rb file_path) s)"

text \<open>The arrow of the progress line, as its three UTF-8 bytes.\<close>

definition arrow :: string where
  "arrow = [CHR 0xE2, CHR 0x86, CHR 0x92]"

text \<open>
  \<open>upload_to_oci\<close>: \<open>upload_file\<close> is the body of the inner loop, \<open>upload_files\<close> the inner
  loop, \<open>upload_walk\<close> the outer loop over the pairs \<open>os.walk(folder_path)\<close> yields (this
  script changes nothing under the folder, so the pairs are taken as a list).
\<close>

definition upload_file ::
  "world \<Rightarrow> path \<Rightarrow> string \<Rightarrow> string \<Rightarrow> path \<Rightarrow> path \<Rightarrow> string \<Rightarrow> state \<Rightarrow> outcome" where
  "upload_file w cwd bucket_name namespace folder_path root file_name s =
     (let file_path = join root file_name;
          object_name = relpath cwd file_path folder_path;
          s1 = emit (Print (''Uploading: '' @ file_path @ '' '' @ arrow @ '' ''
                             @ bucket_name @ ''/'' @ object_name)) s
      in case open_rb w file_path s1 of
           Raised e s2 \<Rightarrow> Raised e s2
         | Done s2 \<Rightarrow> external w (Put_object namespace bucket_name object_name file_path) s2)"

fun upload_files ::
  "world \<Rightarrow> path \<Rightarrow> string \<Rightarrow> string \<Rightarrow> path \<Rightarrow> path \<Rightarrow> string list \<Rightarrow> state \<Rightarrow> outcome" where
  "upload_files w cwd bucket_name namespace folder_path root [] s = Done s"
| "upload_files w cwd bucket_name namespace folder_path root (file_name # files) s =
     (case upload_file w cwd bucket_name namespace folder_path root file_name s of
        Raised e s1 \<Rightarrow> Raised e s1
      | Done s1 \<Rightarrow> upload_files w cwd bucket_name namespace folder_path root files s1)"

fun upload_walk ::
  "world \<Rightarrow> path \<Rightarrow> string \<Rightarrow> string \<Rightarrow> path \<Rightarrow> (path \<times> string list) list \<Rightarrow> state \<Rightarrow> outcome" where
  "upload_walk w cwd bucket_name namespace folder_path [] s = Done s"
| "upload_walk w cwd bucket_name namespace folder_path ((root, files) # walk) s =
     (case upload_files w cwd bucket_name namespace folder_path root files s of
        Raised e s1 \<Rightarrow> Raised e s1
      | Done s1 \<Rightarrow> upload_walk w cwd bucket_name namespace folder_path walk s1)"

definition upload_to_oci ::
  "world \<Rightarrow> path \<Rightarrow> string \<Rightarrow> string \<Rightarrow> path \<Rightarrow> (path \<times> string list) list \<Rightarrow> state \<Rightarrow> outcome" where
  "upload_to_oci w cwd bucket_name namespace folder_path walk s =
     (case external w Client_init s of
        Raised e s1 \<Rightarrow> Raised e s1
      | Done s1 \<Rightarrow>
          (case external w (Get_bucket namespace bucket_name) s1 of
             Raised (ServiceError m) s2 \<Rightarrow>
               Done (emit (Print (''Bucket '' @ [CHR 0x27] @ bucket_name @ [CHR 0x27]
                                   @ '' does not exist or is not accessible: '' @ m)) s2)
           | Raised e s2 \<Rightarrow> Raised e s2
           | Done s2 \<Rightarrow> upload_walk w cwd bucket_name namespace folder_path walk s2))"

section \<open>Observing a run\<close>

text \<open>
  The events a statement added to the trace, and the kinds of event the properties
  below count.
\<close>

definition new_events :: "state \<Rightarrow> state \<Rightarrow> event list" where
  "new_events s s' = drop (length (trace s)) (trace s')"

fun is_convert :: "event \<Rightarrow> bool" where
  "is_convert (Convert a i p) = True"
| "is_convert _ = False"

fun is_move :: "event \<Rightarrow> bool" where
  "is_move (Move a b) = True"
| "is_move _ = False"

fun is_upload_call :: "event \<Rightarrow> bool" where
  "is_upload_call (Open_rb p) = True"
| "is_upload_call (Put_object n b k p) = True"
| "is_upload_call _ = False"

fun is_put :: "event \<Rightarrow> bool" where
  "is_put (Put_object n b k p) = True"
| "is_put _ = False"

text \<open>
  The name of a directory entry: not empty, without separator, and neither \<open>.\<close> nor
  \<open>..\<close>. \<open>below top ds\<close> is the root \<open>os.walk(top)\<close> yields for the directory reached from
  \<open>top\<close> through the names \<open>ds\<close>: \<open>os.walk\<close> joins each name to the directory it is in.
\<close>

definition plain :: "string \<Rightarrow> bool" where
  "plain x \<longleftrightarrow> x \<noteq> [] \<and> sep \<notin> set x \<and> x \<noteq> ''.'' \<and> x \<noteq> ''..''"

fun below :: "path \<Rightarrow> string list \<Rightarrow> path" where
  "below root [] = root"
| "below root (d # ds) = below (join root d) ds"

text \<open>
  The components \<open>normpath\<close> keeps of an absolute path, and the path \<open>abspath\<close> hands to
  \<open>normpath\<close>.
\<close>

definition comps :: "path \<Rightarrow> string list" where
  "comps p = foldl (norm_step True) [] (split_on sep p)"

definition anchored :: "path \<Rightarrow> path \<Rightarrow> path" where
  "anchored cwd p = (if isabs p then p else join cwd p)"

text \<open>
  The uploads a walk calls for when each object is named by its file's path relative to
  the folder root: the statement of the storage interface, to compare the run with.
\<close>

definition keyed_uploads ::
  "path \<Rightarrow> string \<Rightarrow> string \<Rightarrow> path \<Rightarrow> (path \<times> string list) list \<Rightarrow> event list" where
  "keyed_uploads cwd bucket_name namespace folder_path walk =
     concat (map (\<lambda>(root, files).
                    map (\<lambda>file_name. Put_object namespace bucket_name
                                         (relpath cwd (join root file_name) folder_path)
                                         (join root file_name)) files) walk)"

text \<open>
  The \<open>try\<close> body the three handlers share up to the application and the text of the
  success line.
\<close>

definition try_body ::
  "world \<Rightarrow> config \<Rightarrow> app \<Rightarrow> string \<Rightarrow> path \<Rightarrow> path \<Rightarrow> path \<Rightarrow> state \<Rightarrow> outcome" where
  "try_body w c a m fp out rel s =
     (case office_export w a fp out s of
        Raised e s1 \<Rightarrow> Raised e s1
      | Done s1 \<Rightarrow> move_to_processed w c fp rel (print_success m s1))"

text \<open>A set of directories that holds, with each directory, all its ancestors.\<close>

definition closed_dirs :: "path set \<Rightarrow> bool" where
  "closed_dirs D \<longleftrightarrow> (\<forall>d \<in> D. set (parents d) \<subseteq> D)"

text \<open>
  A stretch of a run that moved nothing: no file disappeared, no directory disappeared,
  the directories stayed closed under ancestors, no \<open>shutil.move\<close> was called, and
  neither the line \<open>Moved to Processed\<close> nor the line \<open>Failed to convert\<close> was logged (the
  only INFO line starting with M and the only ERROR line starting with F).
\<close>

definition quiet :: "state \<Rightarrow> state \<Rightarrow> bool" where
  "quiet s s' \<longleftrightarrow>
     dom (fs s) \<subseteq> dom (fs s') \<and> dirs s \<subseteq> dirs s' \<and>
     (closed_dirs (dirs s) \<longrightarrow> closed_dirs (dirs s')) \<and>
     (\<exists>evs. trace s' = trace s @ evs \<and> filter is_move evs = [] \<and>
            (\<forall>m. Log INFO (CHR ''M'' # m) \<notin> set evs) \<and>
            (\<forall>m. Log ERROR (CHR ''F'' # m) \<notin> set evs))"

section \<open>Sample worlds and inputs\<close>

text \<open>
  The names of the sample trees, in the order every listing takes them. A world where
  nothing fails, one where every Office run is rejected, one where the bucket is missing,
  and one where every upload is refused; the folders of a run, and the input tree
  \<open>a/report.docx\<close>, \<open>a/b/data.xlsx\<close>, \<open>readme.txt\<close> under \<open>in\<close>.
\<close>

definition sample_names :: "string list \<times> string list" where
  "sample_names = ([''a'', ''b'', ''done''], [''readme.txt'', ''report.docx'', ''data.xlsx''])"

definition calm :: world where
  "calm =
     \<lparr>com_outcome = (\<lambda>t a i p. Converted), os_raises = (\<lambda>t e. None),
      transfer = (\<lambda>t e. Completed), aliases = (\<lambda>p q. False), scandir = (\<lambda>t d. sample_names)\<rparr>"

definition office_down :: world where
  "office_down =
     \<lparr>com_outcome = (\<lambda>t a i p. Raised_before_save (ComError ''Call was rejected by callee.'')),
      os_raises = (\<lambda>t e. None),
      transfer = (\<lambda>t e. Completed), aliases = (\<lambda>p q. False), scandir = (\<lambda>t d. sample_names)\<rparr>"

definition no_bucket :: world where
  "no_bucket =
     \<lparr>com_outcome = (\<lambda>t a i p. Converted),
      os_raises = (\<lambda>t e. case e of Get_bucket n b \<Rightarrow> Some (ServiceError ''BucketNotFound'')
                                | _ \<Rightarrow> None),
      transfer = (\<lambda>t e. Completed), aliases = (\<lambda>p q. False), scandir = (\<lambda>t d. sample_names)\<rparr>"

definition upload_refused :: world where
  "upload_refused =
     \<lparr>com_outcome = (\<lambda>t a i p. Converted),
      os_raises = (\<lambda>t e. case e of Put_object n b k p \<Rightarrow> Some (ServiceError ''TooManyRequests'')
                                | _ \<Rightarrow> None),
      transfer = (\<lambda>t e. Completed), aliases = (\<lambda>p q. False), scandir = (\<lambda>t d. sample_names)\<rparr>"

text \<open>
  A world where every \<open>shutil.move\<close> is refused before anything is written, and one where
  it fails after the copy, leaving the source.
\<close>

definition move_refused :: world where
  "move_refused =
     \<lparr>com_outcome = (\<lambda>t a i p. Converted), os_raises = (\<lambda>t e. None),
      transfer = (\<lambda>t e. case e of Move a b \<Rightarrow> Refused (OSError ''Permission denied'')
                               | _ \<Rightarrow> Completed),
      aliases = (\<lambda>p q. False), scandir = (\<lambda>t d. sample_names)\<rparr>"


definition demo_config :: config where
  "demo_config =
     \<lparr>output_base_folder = ''out'', processed_base_folder = ''proc'', getcwd = ''/work''\<rparr>"

text \<open>
  The archive root set to the input root, and to a directory under the input root.
\<close>

definition inplace_config :: config where
  "inplace_config =
     \<lparr>output_base_folder = ''out'', processed_base_folder = ''in'', getcwd = ''/work''\<rparr>"


definition abs_config :: config where
  "abs_config =
     \<lparr>output_base_folder = ''/data/out'', processed_base_folder = ''/data/proc'',
      getcwd = ''/work''\<rparr>"

definition demo_state :: state where
  "demo_state =
     \<lparr>fs = [''in/a/report.docx'' \<mapsto> Bytes ''report'',
            ''in/a/b/data.xlsx'' \<mapsto> Bytes ''data'',
            ''in/readme.txt'' \<mapsto> Bytes ''hello''],
      dirs = {''in'', ''in/a'', ''in/a/b'', ''out'', ''proc''},
      trace = []\<rparr>"

text \<open>
  The state of a second run after a first one converted \<open>a/report.docx\<close> and failed to
  archive it, and the sample tree's \<open>readme.txt\<close> under absolute roots.
\<close>

definition rerun_state :: state where
  "rerun_state =
     \<lparr>fs = [''in/a/report.docx'' \<mapsto> Bytes ''report'',
            ''out/a/report.pdf'' \<mapsto> Pdf Word ''in/a/report.docx''],
      dirs = {''in'', ''in/a'', ''out'', ''out/a'', ''proc''},
      trace = []\<rparr>"

definition abs_state :: state where
  "abs_state =
     \<lparr>fs = [''/data/in/readme.txt'' \<mapsto> Bytes ''hello''],
      dirs = {''/'', ''/data'', ''/data/in'', ''/data/out'', ''/data/proc''},
      trace = []\<rparr>"


definition clash_state :: state where
  "clash_state =
     \<lparr>fs = [''in/out'' \<mapsto> Bytes ''notes''],
      dirs = {''in'', ''out'', ''proc'', ''proc/out''},
      trace = []\<rparr>"

text \<open>The sample state once the client is built and the bucket check has passed.\<close>

definition checked_state :: state where
  "checked_state = emit (Get_bucket ''ns'' ''bucket'') (emit Client_init demo_state)"

definition demo_walk :: "(path \<times> string list) list" where
  "demo_walk = [(''in'', [''readme.txt'']), (''in/a'', [''report.docx'']), (''in/a/b'', [''data.xlsx''])]"


section \<open>Facts about the calls\<close>

lemma new_events_append: "trace s' = trace s @ evs \<Longrightarrow> new_events s s' = evs"
  by (simp add: new_events_def)

lemma new_events_self [simp]: "new_events s s = []"
  by (simp add: new_events_def)

lemma emit_simps [simp]:
  "trace (emit e s) = trace s @ [e]" "fs (emit e s) = fs s" "dirs (emit e s) = dirs s"
  by (simp_all add: emit_def)

lemma print_simps [simp]:
  "trace (print_info m s) = trace s @ [Log INFO m]"
  "trace (print_error m s) = trace s @ [Log ERROR m]"
  "trace (print_success m s) = trace s @ [Log INFO m]"
  "fs (print_info m s) = fs s" "fs (print_error m s) = fs s" "fs (print_success m s) = fs s"
  "dirs (print_info m s) = dirs s" "dirs (print_error m s) = dirs s" "dirs (print_success m s) = dirs s"
  by (simp_all add: print_info_def print_error_def print_success_def)

lemma parents_trans: "q \<in> set (parents p) \<Longrightarrow> set (parents q) \<subseteq> set (parents p)"
proof (induction p rule: parents.induct)
  case (1 p)
  show ?case
  proof (cases "dirname p \<noteq> [] \<and> length (dirname p) < length p")
    case True
    then have ps: "parents p = dirname p # parents (dirname p)"
      by (subst parents.simps) simp
    from "1.prems" ps have "q = dirname p \<or> q \<in> set (parents (dirname p))" by simp
    then show ?thesis
    proof
      assume "q = dirname p"
      then show ?thesis using ps by auto
    next
      assume "q \<in> set (parents (dirname p))"
      from "1.IH"[OF True this] show ?thesis using ps by auto
    qed
  next
    case False
    then have "parents p = []" by (subst parents.simps) simp
    with "1.prems" show ?thesis by simp
  qed
qed

lemma closed_dirs_makedirs:
  "closed_dirs D \<Longrightarrow> closed_dirs (D \<union> set (p # parents p))"
  unfolding closed_dirs_def using parents_trans[of _ p] by auto

lemma os_makedirs_Raised:
  "os_makedirs w p s = Raised e s1 \<Longrightarrow>
     trace s1 = trace s @ [Makedirs p] \<and> fs s1 = fs s \<and> dirs s1 = dirs s"
  by (auto simp: os_makedirs_def split: if_splits option.splits)

lemma os_makedirs_Done:
  "os_makedirs w p s = Done s1 \<Longrightarrow>
     trace s1 = trace s @ [Makedirs p] \<and> fs s1 = fs s \<and> p \<in> dirs s1 \<and> p \<noteq> [] \<and>
     dirs s \<subseteq> dirs s1 \<and> (closed_dirs (dirs s) \<longrightarrow> closed_dirs (dirs s1))"
  using closed_dirs_makedirs[of "dirs s" p]
  by (auto simp: os_makedirs_def split: if_splits option.splits)

lemma shutil_move_Raised:
  "shutil_move w src dst s = Raised e s1 \<Longrightarrow>
     trace s1 = trace s @ [Move src dst] \<and> dirs s1 = dirs s \<and>
     dom (fs s) \<subseteq> dom (fs s1) \<and> fs s1 src = fs s src"
  by (auto simp: shutil_move_def Let_def samefile_def
           split: if_splits transfer_outcome.splits)

lemma shutil_move_Done:
  "shutil_move w src dst s = Done s1 \<Longrightarrow>
     trace s1 = trace s @ [Move src dst] \<and> dirs s1 = dirs s \<and> fs s src \<noteq> None \<and>
     (samefile w src (real_dst s (basename (rstrip sep src)) dst) \<longrightarrow> fs s1 = fs s) \<and>
     (\<not> samefile w src (real_dst s (basename (rstrip sep src)) dst) \<longrightarrow>
        fs s1 = ((fs s)(src := None))(real_dst s (basename (rstrip sep src)) dst := fs s src))"
  by (auto simp: shutil_move_def Let_def split: if_splits transfer_outcome.splits)

lemma shutil_copy_Raised:
  "shutil_copy w src dst s = Raised e s1 \<Longrightarrow>
     trace s1 = trace s @ [Copy src dst] \<and> dirs s1 = dirs s \<and> dom (fs s) \<subseteq> dom (fs s1)"
  by (auto simp: shutil_copy_def Let_def split: if_splits transfer_outcome.splits)

lemma shutil_copy_Done:
  "shutil_copy w src dst s = Done s1 \<Longrightarrow>
     trace s1 = trace s @ [Copy src dst] \<and> dirs s1 = dirs s \<and> fs s src \<noteq> None \<and>
     fs s1 = (fs s)(real_dst s (basename src) dst := fs s src)"
  by (auto simp: shutil_copy_def Let_def split: if_splits transfer_outcome.splits)

lemma office_export_Raised:
  "office_export w a i p s = Raised e s1 \<Longrightarrow>
     trace s1 = trace s @ [Convert a i p] \<and> (fs s1 = fs s \<or> fs s1 = (fs s)(p \<mapsto> Pdf a i)) \<and>
     dirs s1 = dirs s \<and> com_outcome w (length (trace s)) a i p \<noteq> Converted"
  by (auto simp: office_export_def split: conv_outcome.splits)

lemma office_export_Done:
  "office_export w a i p s = Done s1 \<Longrightarrow>
     trace s1 = trace s @ [Convert a i p] \<and> fs s1 = (fs s)(p \<mapsto> Pdf a i) \<and>
     dirs s1 = dirs s \<and> com_outcome w (length (trace s)) a i p = Converted"
  by (auto simp: office_export_def split: conv_outcome.splits)

lemma move_to_processed_Raised:
  "move_to_processed w c fp rel s = Raised e s1 \<Longrightarrow>
     trace s1 = trace s @ [Makedirs (dirname (join (processed_base_folder c) rel))] \<and>
     fs s1 = fs s \<and> dirs s1 = dirs s"
  by (auto simp: move_to_processed_def Let_def split: outcome.splits dest: os_makedirs_Raised)

lemma move_to_processed_Done:
  assumes "move_to_processed w c fp rel s = Done s1"
  shows "dirs s \<subseteq> dirs s1 \<and> dirname (join (processed_base_folder c) rel) \<in> dirs s1 \<and>
     (closed_dirs (dirs s) \<longrightarrow> closed_dirs (dirs s1)) \<and>
     ((trace s1 = trace s @ [Makedirs (dirname (join (processed_base_folder c) rel)),
                             Move fp (join (processed_base_folder c) rel),
                             Log INFO (''Moved to Processed: '' @ rel)] \<and>
       fs s fp \<noteq> None \<and>
       (join (processed_base_folder c) rel \<notin> dirs s1 \<and>
        \<not> samefile w fp (join (processed_base_folder c) rel) \<longrightarrow>
          fs s1 = ((fs s)(fp := None))(join (processed_base_folder c) rel := fs s fp)) \<and>
       (join (processed_base_folder c) rel \<notin> dirs s1 \<and>
        samefile w fp (join (processed_base_folder c) rel) \<longrightarrow> fs s1 = fs s))
      \<or> (\<exists>e. trace s1 = trace s @ [Makedirs (dirname (join (processed_base_folder c) rel)),
                             Move fp (join (processed_base_folder c) rel),
                             Log ERROR (''Error moving file '' @ fp @ '': '' @ str e)] \<and>
            dom (fs s) \<subseteq> dom (fs s1) \<and> fs s1 fp = fs s fp))"
proof -
  let ?pp = "join (processed_base_folder c) rel"
  from assms obtain s0 where mk: "os_makedirs w (dirname ?pp) s = Done s0"
    by (cases "os_makedirs w (dirname ?pp) s") (auto simp: move_to_processed_def Let_def)
  from os_makedirs_Done[OF mk]
  have t0: "trace s0 = trace s @ [Makedirs (dirname ?pp)]" and f0: "fs s0 = fs s"
    and d0: "dirname ?pp \<in> dirs s0" "dirs s \<subseteq> dirs s0"
    and c0: "closed_dirs (dirs s) \<longrightarrow> closed_dirs (dirs s0)" by blast+
  show ?thesis
  proof (cases "shutil_move w fp ?pp s0")
    case (Done s2)
    with assms mk have s1: "s1 = print_info (''Moved to Processed: '' @ rel) s2"
      by (simp add: move_to_processed_def Let_def)
    from shutil_move_Done[OF Done]
    have t2: "trace s2 = trace s0 @ [Move fp ?pp]" and d2: "dirs s2 = dirs s0"
      and src: "fs s0 fp \<noteq> None"
      and same: "samefile w fp (real_dst s0 (basename (rstrip sep fp)) ?pp) \<longrightarrow> fs s2 = fs s0"
      and other: "\<not> samefile w fp (real_dst s0 (basename (rstrip sep fp)) ?pp) \<longrightarrow>
        fs s2 = ((fs s0)(fp := None))(real_dst s0 (basename (rstrip sep fp)) ?pp := fs s0 fp)"
      by blast+
    have r: "?pp \<notin> dirs s1 \<Longrightarrow> real_dst s0 (basename (rstrip sep fp)) ?pp = ?pp"
      by (simp add: s1 d2 real_dst_def)
    have "trace s1 = trace s @ [Makedirs (dirname ?pp), Move fp ?pp,
        Log INFO (''Moved to Processed: '' @ rel)]"
      by (simp add: s1 t2 t0)
    moreover have "fs s fp \<noteq> None" using src f0 by simp
    moreover have "?pp \<notin> dirs s1 \<and> \<not> samefile w fp ?pp \<longrightarrow>
        fs s1 = ((fs s)(fp := None))(?pp := fs s fp)"
      using other r f0 by (simp add: s1)
    moreover have "?pp \<notin> dirs s1 \<and> samefile w fp ?pp \<longrightarrow> fs s1 = fs s"
      using same r f0 by (simp add: s1)
    moreover have "dirs s \<subseteq> dirs s1" "dirname ?pp \<in> dirs s1"
        "closed_dirs (dirs s) \<longrightarrow> closed_dirs (dirs s1)"
      using d0 c0 by (simp_all add: s1 d2)
    ultimately show ?thesis by blast
  next
    case (Raised e s2)
    with assms mk have s1: "s1 = print_error (''Error moving file '' @ fp @ '': '' @ str e) s2"
      by (simp add: move_to_processed_def Let_def)
    from shutil_move_Raised[OF Raised]
    have t2: "trace s2 = trace s0 @ [Move fp ?pp]" and d2: "dirs s2 = dirs s0"
      and g: "dom (fs s0) \<subseteq> dom (fs s2)" "fs s2 fp = fs s0 fp" by blast+
    have "trace s1 = trace s @ [Makedirs (dirname ?pp), Move fp ?pp,
        Log ERROR (''Error moving file '' @ fp @ '': '' @ str e)]"
      by (simp add: s1 t2 t0)
    moreover have "dom (fs s) \<subseteq> dom (fs s1)" "fs s1 fp = fs s fp"
      using g f0 by (simp_all add: s1)
    moreover have "dirs s \<subseteq> dirs s1" "dirname ?pp \<in> dirs s1"
        "closed_dirs (dirs s) \<longrightarrow> closed_dirs (dirs s1)"
      using d0 c0 by (simp_all add: s1 d2)
    ultimately show ?thesis by blast
  qed
qed

lemma quiet_refl [simp]: "quiet s s"
  by (simp add: quiet_def)

lemma quiet_trans: "quiet s s1 \<Longrightarrow> quiet s1 s2 \<Longrightarrow> quiet s s2"
  unfolding quiet_def by (elim conjE exE) (auto)

lemma quietI:
  "trace s' = trace s @ evs \<Longrightarrow> filter is_move evs = [] \<Longrightarrow>
   (\<forall>m. Log INFO (CHR ''M'' # m) \<notin> set evs) \<Longrightarrow> (\<forall>m. Log ERROR (CHR ''F'' # m) \<notin> set evs) \<Longrightarrow>
   dom (fs s) \<subseteq> dom (fs s') \<Longrightarrow> dirs s' = dirs s \<Longrightarrow> quiet s s'"
  unfolding quiet_def by auto

subsection \<open>The handlers\<close>

lemma try_body_Raised:
  assumes "try_body w c a m fp out rel s = Raised e s1"
  shows "dom (fs s) \<subseteq> dom (fs s1) \<and> dirs s1 = dirs s \<and>
     ((trace s1 = trace s @ [Convert a fp out] \<and>
         com_outcome w (length (trace s)) a fp out \<noteq> Converted)
      \<or> (trace s1 = trace s @ [Convert a fp out, Log INFO m,
                               Makedirs (dirname (join (processed_base_folder c) rel))] \<and>
          com_outcome w (length (trace s)) a fp out = Converted))"
  using assms
  by (auto simp: try_body_def split: outcome.splits
           dest!: office_export_Raised office_export_Done move_to_processed_Raised)

lemma try_body_Done:
  assumes "try_body w c a m fp out rel s = Done s2"
  shows "\<exists>s1. trace s1 = trace s @ [Convert a fp out, Log INFO m] \<and>
     fs s1 = (fs s)(out \<mapsto> Pdf a fp) \<and> dirs s1 = dirs s \<and>
     com_outcome w (length (trace s)) a fp out = Converted \<and>
     move_to_processed w c fp rel s1 = Done s2"
proof (cases "office_export w a fp out s")
  case (Done x1)
  with assms have m: "move_to_processed w c fp rel (print_success m x1) = Done s2"
    by (simp add: try_body_def)
  from Done office_export_Done[OF Done] m show ?thesis
    by (intro exI[of _ "print_success m x1"]) simp
next
  case (Raised e x1)
  with assms show ?thesis by (simp add: try_body_def)
qed

lemma word_try_eq:
  "word_try w c fp out rel s =
     try_body w c Word (''Word converted: '' @ rel @ '' -> '' @ basename out) fp out rel s"
  unfolding word_try_def try_body_def ..

lemma word_attempts_structure:
  assumes "\<forall>a \<in> set atts. a \<le> 3"
  shows "\<exists>s'. word_attempts w c atts fp out rel s = Done s' \<and>
     (quiet s s' \<or> (\<exists>s1. quiet s s1 \<and> move_to_processed w c fp rel s1 = Done s'))"
  using assms
proof (induction atts arbitrary: s)
  case Nil
  show ?case by simp
next
  case (Cons attempt rest)
  show ?case
  proof (cases "word_try w c fp out rel s")
    case (Done s2)
    then obtain s1 where s1: "trace s1 = trace s @ [Convert Word fp out,
          Log INFO (''Word converted: '' @ rel @ '' -> '' @ basename out)]"
        "fs s1 = (fs s)(out \<mapsto> Pdf Word fp)" "dirs s1 = dirs s"
        "move_to_processed w c fp rel s1 = Done s2"
      using try_body_Done[of w c Word _ fp out rel s s2] by (auto simp: word_try_eq)
    have "quiet s s1"
      by (rule quietI[OF s1(1)]) (auto simp: s1)
    with s1 Done show ?thesis by auto
  next
    case (Raised e s1)
    define s3 where "s3 = print_info (''Retrying attempt #'' @ str_int (attempt + 1) @ ''/3'')
        (print_error (''Error converting Word file '' @ rel @ '': '' @ str e) s1)"
    have q1: "quiet s s3"
      using try_body_Raised[OF Raised[unfolded word_try_eq]]
      unfolding s3_def quiet_def by auto
    from Cons.prems have "\<not> attempt > 3" by simp
    with Raised have eq: "word_attempts w c (attempt # rest) fp out rel s =
        word_attempts w c rest fp out rel s3"
      by (simp add: s3_def Let_def)
    from Cons.prems have "\<forall>a \<in> set rest. a \<le> 3" by simp
    from Cons.IH[OF this, of s3] q1 show ?thesis
      unfolding eq by (auto intro: quiet_trans)
  qed
qed

lemma convert_word_to_pdf_structure:
  "\<exists>s'. convert_word_to_pdf w c fp out rel s = Done s' \<and>
     (quiet s s' \<or> (\<exists>s1. quiet s s1 \<and> move_to_processed w c fp rel s1 = Done s'))"
  unfolding convert_word_to_pdf_def
  by (rule word_attempts_structure) auto

lemma convert_excel_eq:
  "convert_excel_to_pdf w c fp out rel s =
     (case try_body w c Excel (''Excel converted: '' @ rel @ '' -> '' @ basename out) fp out rel s of
        Done s2 \<Rightarrow> Done s2
      | Raised e s2 \<Rightarrow>
          Done (print_error (''Error converting Excel file '' @ rel @ '': '' @ str e) s2))"
  unfolding convert_excel_to_pdf_def try_body_def ..

lemma convert_excel_to_pdf_structure:
  "\<exists>s'. convert_excel_to_pdf w c fp out rel s = Done s' \<and>
     (quiet s s' \<or> (\<exists>s1. quiet s s1 \<and> move_to_processed w c fp rel s1 = Done s'))"
proof (cases "try_body w c Excel (''Excel converted: '' @ rel @ '' -> '' @ basename out) fp out rel s")
  case (Done s2)
  then obtain s1 where s1: "trace s1 = trace s @ [Convert Excel fp out,
        Log INFO (''Excel converted: '' @ rel @ '' -> '' @ basename out)]"
      "fs s1 = (fs s)(out \<mapsto> Pdf Excel fp)" "dirs s1 = dirs s"
      "move_to_processed w c fp rel s1 = Done s2"
    using try_body_Done[of w c Excel _ fp out rel s s2] by auto
  have "quiet s s1"
    by (rule quietI[OF s1(1)]) (auto simp: s1)
  moreover from Done have "convert_excel_to_pdf w c fp out rel s = Done s2"
    by (simp add: convert_excel_eq)
  ultimately show ?thesis using s1 by auto
next
  case (Raised e s1)
  then have "convert_excel_to_pdf w c fp out rel s =
      Done (print_error (''Error converting Excel file '' @ rel @ '': '' @ str e) s1)"
    by (simp add: convert_excel_eq)
  moreover have "quiet s (print_error (''Error converting Excel file '' @ rel @ '': '' @ str e) s1)"
    using try_body_Raised[OF Raised] unfolding quiet_def by auto
  ultimately show ?thesis by auto
qed

lemma convert_powerpoint_eq:
  "convert_powerpoint_to_pdf w c fp out rel s =
     (case try_body w c PowerPoint (''PowerPoint converted: '' @ rel @ '' -> '' @ basename out)
             fp out rel s of
        Done s2 \<Rightarrow> Done s2
      | Raised e s2 \<Rightarrow>
          Done (print_error (''Error converting PowerPoint file '' @ rel @ '': '' @ str e) s2))"
  unfolding convert_powerpoint_to_pdf_def try_body_def ..

lemma convert_powerpoint_to_pdf_structure:
  "\<exists>s'. convert_powerpoint_to_pdf w c fp out rel s = Done s' \<and>
     (quiet s s' \<or> (\<exists>s1. quiet s s1 \<and> move_to_processed w c fp rel s1 = Done s'))"
proof (cases "try_body w c PowerPoint (''PowerPoint converted: '' @ rel @ '' -> '' @ basename out)
                fp out rel s")
  case (Done s2)
  then obtain s1 where s1: "trace s1 = trace s @ [Convert PowerPoint fp out,
        Log INFO (''PowerPoint converted: '' @ rel @ '' -> '' @ basename out)]"
      "fs s1 = (fs s)(out \<mapsto> Pdf PowerPoint fp)" "dirs s1 = dirs s"
      "move_to_processed w c fp rel s1 = Done s2"
    using try_body_Done[of w c PowerPoint _ fp out rel s s2] by auto
  have "quiet s s1"
    by (rule quietI[OF s1(1)]) (auto simp: s1)
  moreover from Done have "convert_powerpoint_to_pdf w c fp out rel s = Done s2"
    by (simp add: convert_powerpoint_eq)
  ultimately show ?thesis using s1 by auto
next
  case (Raised e s1)
  then have "convert_powerpoint_to_pdf w c fp out rel s =
      Done (print_error (''Error converting PowerPoint file '' @ rel @ '': '' @ str e) s1)"
    by (simp add: convert_powerpoint_eq)
  moreover have
    "quiet s (print_error (''Error converting PowerPoint file '' @ rel @ '': '' @ str e) s1)"
    using try_body_Raised[OF Raised] unfolding quiet_def by auto
  ultimately show ?thesis by auto
qed

lemma try_body_converts:
  "\<exists>evs. trace (state_of (try_body w c a m fp out rel s)) = trace s @ evs \<and>
     filter is_convert evs = [Convert a fp out]"
proof (cases "try_body w c a m fp out rel s")
  case (Done s2)
  from try_body_Done[OF Done] obtain s1 where
    s1: "trace s1 = trace s @ [Convert a fp out, Log INFO m]"
      "move_to_processed w c fp rel s1 = Done s2" by blast
  from move_to_processed_Done[OF s1(2)] s1(1) Done show ?thesis by auto
next
  case (Raised e s1)
  from try_body_Raised[OF Raised] Raised show ?thesis by auto
qed

lemma excel_converts:
  "\<exists>evs. trace (state_of (convert_excel_to_pdf w c fp out rel s)) = trace s @ evs \<and>
     filter is_convert evs = [Convert Excel fp out]"
  using try_body_converts[of w c Excel
      "''Excel converted: '' @ rel @ '' -> '' @ basename out" fp out rel s]
  by (cases "try_body w c Excel (''Excel converted: '' @ rel @ '' -> '' @ basename out)
               fp out rel s") (auto simp: convert_excel_eq)

lemma powerpoint_converts:
  "\<exists>evs. trace (state_of (convert_powerpoint_to_pdf w c fp out rel s)) = trace s @ evs \<and>
     filter is_convert evs = [Convert PowerPoint fp out]"
  using try_body_converts[of w c PowerPoint
      "''PowerPoint converted: '' @ rel @ '' -> '' @ basename out" fp out rel s]
  by (cases "try_body w c PowerPoint (''PowerPoint converted: '' @ rel @ '' -> '' @ basename out)
               fp out rel s") (auto simp: convert_powerpoint_eq)

lemma word_attempts_converts:
  "\<exists>evs k. trace (state_of (word_attempts w c atts fp out rel s)) = trace s @ evs \<and>
     filter is_convert evs = replicate k (Convert Word fp out) \<and> k \<le> length atts"
proof (induction atts arbitrary: s)
  case Nil
  show ?case by simp
next
  case (Cons attempt rest)
  from try_body_converts[of w c Word "''Word converted: '' @ rel @ '' -> '' @ basename out"
      fp out rel s]
  obtain evs1 where evs1: "trace (state_of (word_try w c fp out rel s)) = trace s @ evs1"
      "filter is_convert evs1 = [Convert Word fp out]"
    unfolding word_try_eq by blast
  show ?case
  proof (cases "word_try w c fp out rel s")
    case (Done s1)
    with evs1 show ?thesis by (auto intro!: exI[of _ evs1] exI[of _ 1])
  next
    case (Raised e s1)
    define s3 where "s3 = print_info (''Retrying attempt #'' @ str_int (attempt + 1) @ ''/3'')
        (print_error (''Error converting Word file '' @ rel @ '': '' @ str e) s1)"
    show ?thesis
    proof (cases "attempt > 3")
      case True
      with Raised evs1 show ?thesis
        by (auto simp: Let_def intro!: exI[of _ 1])
    next
      case False
      with Raised have eq: "word_attempts w c (attempt # rest) fp out rel s =
          word_attempts w c rest fp out rel s3"
        by (simp add: s3_def Let_def)
      from Cons.IH[of s3] obtain evs k where
        k: "trace (state_of (word_attempts w c rest fp out rel s3)) = trace s3 @ evs"
           "filter is_convert evs = replicate k (Convert Word fp out)" "k \<le> length rest"
        by blast
      from Raised evs1 k show ?thesis
        unfolding eq by (auto simp: s3_def intro!: exI[of _ "Suc k"])
    qed
  qed
qed

lemma word_attempts_all_fail:
  assumes fail: "\<forall>t. com_outcome w t Word fp out \<noteq> Converted"
    and small: "\<forall>a \<in> set atts. a \<le> 3"
  shows "\<exists>s' evs. word_attempts w c atts fp out rel s = Done s' \<and>
     trace s' = trace s @ evs \<and>
     filter is_convert evs = replicate (length atts) (Convert Word fp out) \<and>
     filter is_move evs = [] \<and> dom (fs s) \<subseteq> dom (fs s') \<and>
     (atts = [] \<or> (\<exists>e. Log ERROR (''Error converting Word file '' @ rel @ '': '' @ str e) \<in> set evs))"
  using small
proof (induction atts arbitrary: s)
  case Nil
  show ?case by simp
next
  case (Cons attempt rest)
  show ?case
  proof (cases "word_try w c fp out rel s")
    case (Done s2)
    from try_body_Done[OF Done[unfolded word_try_eq]] fail show ?thesis by blast
  next
    case (Raised e s1)
    define s3 where "s3 = print_info (''Retrying attempt #'' @ str_int (attempt + 1) @ ''/3'')
        (print_error (''Error converting Word file '' @ rel @ '': '' @ str e) s1)"
    from try_body_Raised[OF Raised[unfolded word_try_eq]] fail
    have s1: "trace s1 = trace s @ [Convert Word fp out]" "dom (fs s) \<subseteq> dom (fs s1)"
      by auto
    from Cons.prems have "\<not> attempt > 3" by simp
    with Raised have eq: "word_attempts w c (attempt # rest) fp out rel s =
        word_attempts w c rest fp out rel s3"
      by (simp add: s3_def Let_def)
    from Cons.prems have "\<forall>a \<in> set rest. a \<le> 3" by simp
    from Cons.IH[OF this, of s3] obtain s' evs where
      ih: "word_attempts w c rest fp out rel s3 = Done s'" "trace s' = trace s3 @ evs"
        "filter is_convert evs = replicate (length rest) (Convert Word fp out)"
        "filter is_move evs = []" "dom (fs s3) \<subseteq> dom (fs s')"
      by blast
    have "Log ERROR (''Error converting Word file '' @ rel @ '': '' @ str e) \<in>
        set ([Convert Word fp out, Log ERROR (''Error converting Word file '' @ rel @ '': '' @ str e),
              Log INFO (''Retrying attempt #'' @ str_int (attempt + 1) @ ''/3'')] @ evs)"
      by simp
    with ih s1 show ?thesis
      unfolding eq
      apply (intro exI[of _ s'] exI[of _ "[Convert Word fp out,
          Log ERROR (''Error converting Word file '' @ rel @ '': '' @ str e),
          Log INFO (''Retrying attempt #'' @ str_int (attempt + 1) @ ''/3'')] @ evs"])
      apply (simp add: s3_def)
      by blast
  qed
qed

subsection \<open>The traversals\<close>

lemma external_Done:
  "external w e s = Done s1 \<Longrightarrow>
     trace s1 = trace s @ [e] \<and> fs s1 = fs s \<and> dirs s1 = dirs s \<and>
     os_raises w (length (trace s)) e = None"
  by (auto simp: external_def split: option.splits)

lemma external_Raised:
  "external w e s = Raised x s1 \<Longrightarrow>
     trace s1 = trace s @ [e] \<and> fs s1 = fs s \<and> dirs s1 = dirs s \<and>
     os_raises w (length (trace s)) e = Some x"
  by (auto simp: external_def split: option.splits)

lemma open_rb_Done:
  "open_rb w p s = Done s1 \<Longrightarrow>
     trace s1 = trace s @ [Open_rb p] \<and> fs s1 = fs s \<and> dirs s1 = dirs s \<and> fs s p \<noteq> None"
  by (auto simp: open_rb_def split: if_splits dest: external_Done)

lemma open_rb_Raised:
  "open_rb w p s = Raised x s1 \<Longrightarrow>
     trace s1 = trace s @ [Open_rb p] \<and> fs s1 = fs s \<and> dirs s1 = dirs s"
  by (auto simp: open_rb_def split: if_splits dest: external_Raised)

lemma upload_file_Done:
  assumes "upload_file w cwd b n folder root f s = Done s1"
  shows "filter is_put (new_events s s1) =
           [Put_object n b (relpath cwd (join root f) folder) (join root f)] \<and>
         fs s1 = fs s \<and> (\<exists>evs. trace s1 = trace s @ evs)"
  using assms
  by (auto simp: upload_file_def Let_def new_events_def split: outcome.splits
           dest!: open_rb_Done external_Done)

lemma upload_file_Raised:
  assumes "upload_file w cwd b n folder root f s = Raised e s1"
  shows "prefix (filter is_put (new_events s s1))
           [Put_object n b (relpath cwd (join root f) folder) (join root f)] \<and>
         fs s1 = fs s \<and> (\<exists>evs. trace s1 = trace s @ evs)"
  using assms
  by (auto simp: upload_file_def Let_def new_events_def split: outcome.splits
           dest!: open_rb_Done open_rb_Raised external_Raised)

lemma new_events_trans:
  "trace s1 = trace s @ a \<Longrightarrow> trace s2 = trace s1 @ b \<Longrightarrow>
     new_events s s2 = new_events s s1 @ new_events s1 s2"
  by (simp add: new_events_def)

lemma upload_files_puts:
  "(\<exists>evs. trace (state_of (upload_files w cwd b n folder root files s)) = trace s @ evs) \<and>
   prefix (filter is_put (new_events s (state_of (upload_files w cwd b n folder root files s))))
          (keyed_uploads cwd b n folder [(root, files)]) \<and>
   (\<not> is_raised (upload_files w cwd b n folder root files s) \<longrightarrow>
      filter is_put (new_events s (state_of (upload_files w cwd b n folder root files s))) =
        keyed_uploads cwd b n folder [(root, files)])"
proof (induction files arbitrary: s)
  case Nil
  show ?case by (simp add: keyed_uploads_def)
next
  case (Cons f files)
  show ?case
  proof (cases "upload_file w cwd b n folder root f s")
    case (Raised e s1)
    with upload_file_Raised[OF Raised] show ?thesis
      by (auto simp: keyed_uploads_def prefix_Cons elim!: prefixE)
  next
    case (Done s1)
    from upload_file_Done[OF Done] obtain a where
      a: "trace s1 = trace s @ a"
        "filter is_put (new_events s s1) =
           [Put_object n b (relpath cwd (join root f) folder) (join root f)]" by blast
    from Cons.IH[of s1] obtain b' where
      b': "trace (state_of (upload_files w cwd b n folder root files s1)) = trace s1 @ b'" by blast
    note tr = new_events_trans[OF a(1) b']
    from Cons.IH[of s1] Done a b' show ?thesis
      by (auto simp: tr keyed_uploads_def)
  qed
qed

lemma keyed_uploads_Cons:
  "keyed_uploads cwd b n folder ((root, files) # walk) =
     keyed_uploads cwd b n folder [(root, files)] @ keyed_uploads cwd b n folder walk"
  by (simp add: keyed_uploads_def)

lemma upload_walk_puts:
  "(\<exists>evs. trace (state_of (upload_walk w cwd b n folder walk s)) = trace s @ evs) \<and>
   prefix (filter is_put (new_events s (state_of (upload_walk w cwd b n folder walk s))))
          (keyed_uploads cwd b n folder walk) \<and>
   (\<not> is_raised (upload_walk w cwd b n folder walk s) \<longrightarrow>
      filter is_put (new_events s (state_of (upload_walk w cwd b n folder walk s))) =
        keyed_uploads cwd b n folder walk)"
proof (induction walk arbitrary: s)
  case Nil
  show ?case by (simp add: keyed_uploads_def)
next
  case (Cons entry walk)
  obtain root files where entry: "entry = (root, files)" by (cases entry)
  let ?inner = "upload_files w cwd b n folder root files s"
  from upload_files_puts[of w cwd b n folder root files s]
  have i1: "\<exists>evs. trace (state_of ?inner) = trace s @ evs"
    and i2: "prefix (filter is_put (new_events s (state_of ?inner)))
               (keyed_uploads cwd b n folder [(root, files)])"
    and i3: "\<not> is_raised ?inner \<Longrightarrow>
       filter is_put (new_events s (state_of ?inner)) = keyed_uploads cwd b n folder [(root, files)]"
    by blast+
  show ?case
  proof (cases ?inner)
    case (Raised e s1)
    then have eq: "upload_walk w cwd b n folder (entry # walk) s = Raised e s1"
      by (simp add: entry)
    from i1 i2 Raised show ?thesis
      unfolding entry eq[unfolded entry] keyed_uploads_Cons[of cwd b n folder root files walk] by simp
  next
    case (Done s1)
    then have eq: "upload_walk w cwd b n folder (entry # walk) s =
        upload_walk w cwd b n folder walk s1"
      by (simp add: entry)
    let ?rest = "upload_walk w cwd b n folder walk s1"
    from i1 Done obtain a where a: "trace s1 = trace s @ a" by auto
    from i3 Done have p1: "filter is_put (new_events s s1) = keyed_uploads cwd b n folder [(root, files)]"
      by simp
    from Cons.IH[of s1]
    have r1: "\<exists>evs. trace (state_of ?rest) = trace s1 @ evs"
      and r2: "prefix (filter is_put (new_events s1 (state_of ?rest))) (keyed_uploads cwd b n folder walk)"
      and r3: "\<not> is_raised ?rest \<Longrightarrow>
         filter is_put (new_events s1 (state_of ?rest)) = keyed_uploads cwd b n folder walk"
      by blast+
    from r1 obtain b' where b': "trace (state_of ?rest) = trace s1 @ b'" by blast
    have tr: "new_events s (state_of ?rest) = new_events s s1 @ new_events s1 (state_of ?rest)"
      by (rule new_events_trans[OF a b'])
    have "trace (state_of ?rest) = trace s @ (a @ b')" using a b' by simp
    then have c1: "\<exists>evs. trace (state_of ?rest) = trace s @ evs" by blast
    have c2: "prefix (filter is_put (new_events s (state_of ?rest)))
        (keyed_uploads cwd b n folder ((root, files) # walk))"
      unfolding tr keyed_uploads_Cons[of cwd b n folder root files walk] using p1 r2 by simp
    have c3: "\<not> is_raised ?rest \<Longrightarrow> filter is_put (new_events s (state_of ?rest)) =
        keyed_uploads cwd b n folder ((root, files) # walk)"
      unfolding tr keyed_uploads_Cons[of cwd b n folder root files walk] using p1 r3 by simp
    from c1 c2 c3 show ?thesis unfolding entry eq[unfolded entry] by blast
  qed
qed

lemma upload_files_abort:
  assumes "upload_files w cwd b n folder root before s = Done s1"
    and "upload_file w cwd b n folder root f s1 = Raised e s2"
  shows "upload_files w cwd b n folder root (before @ f # after) s = Raised e s2"
  using assms
  by (induction before arbitrary: s) (auto split: outcome.splits)

lemma copy_to_output_Raised:
  "copy_to_output w c fp rel s = Raised e s1 \<Longrightarrow>
     trace s1 = trace s @ [Makedirs (dirname (join (processed_base_folder c) rel))] \<and>
     fs s1 = fs s \<and> dirs s1 = dirs s"
  by (auto simp: copy_to_output_def Let_def split: outcome.splits dest: os_makedirs_Raised)

lemma copy_to_output_Done:
  assumes "copy_to_output w c fp rel s = Done s1"
  shows "dirs s \<subseteq> dirs s1 \<and> (closed_dirs (dirs s) \<longrightarrow> closed_dirs (dirs s1)) \<and>
     dom (fs s) \<subseteq> dom (fs s1) \<and>
     (trace s1 = trace s @ [Makedirs (dirname (join (processed_base_folder c) rel)),
                             Copy fp (join (processed_base_folder c) rel),
                             Log INFO (''Copy to Output: '' @ rel)]
      \<or> (\<exists>e. trace s1 = trace s @ [Makedirs (dirname (join (processed_base_folder c) rel)),
                             Copy fp (join (processed_base_folder c) rel),
                             Log ERROR (''Error copying file '' @ fp @ '': '' @ str e)]))"
proof -
  let ?pp = "join (processed_base_folder c) rel"
  from assms obtain s0 where mk: "os_makedirs w (dirname ?pp) s = Done s0"
    by (cases "os_makedirs w (dirname ?pp) s") (auto simp: copy_to_output_def Let_def)
  from os_makedirs_Done[OF mk]
  have t0: "trace s0 = trace s @ [Makedirs (dirname ?pp)]" and f0: "fs s0 = fs s"
    and d0: "dirs s \<subseteq> dirs s0"
    and c0: "closed_dirs (dirs s) \<longrightarrow> closed_dirs (dirs s0)" by blast+
  show ?thesis
  proof (cases "shutil_copy w fp ?pp s0")
    case (Done s2)
    with assms mk have s1: "s1 = print_info (''Copy to Output: '' @ rel) s2"
      by (simp add: copy_to_output_def Let_def)
    from shutil_copy_Done[OF Done]
    have t2: "trace s2 = trace s0 @ [Copy fp ?pp]" and d2: "dirs s2 = dirs s0"
      and src: "fs s0 fp \<noteq> None"
      and f2: "fs s2 = (fs s0)(real_dst s0 (basename fp) ?pp := fs s0 fp)" by blast+
    have "trace s1 = trace s @ [Makedirs (dirname ?pp), Copy fp ?pp,
        Log INFO (''Copy to Output: '' @ rel)]"
      by (simp add: s1 t2 t0)
    moreover have "dom (fs s) \<subseteq> dom (fs s1)" using src f0 f2 by (auto simp: s1)
    moreover have "dirs s \<subseteq> dirs s1" "closed_dirs (dirs s) \<longrightarrow> closed_dirs (dirs s1)"
      using d0 c0 by (simp_all add: s1 d2)
    ultimately show ?thesis by blast
  next
    case (Raised e s2)
    with assms mk have s1: "s1 = print_error (''Error copying file '' @ fp @ '': '' @ str e) s2"
      by (simp add: copy_to_output_def Let_def)
    from shutil_copy_Raised[OF Raised]
    have t2: "trace s2 = trace s0 @ [Copy fp ?pp]" and d2: "dirs s2 = dirs s0"
      and g: "dom (fs s0) \<subseteq> dom (fs s2)" by blast+
    have "trace s1 = trace s @ [Makedirs (dirname ?pp), Copy fp ?pp,
        Log ERROR (''Error copying file '' @ fp @ '': '' @ str e)]"
      by (simp add: s1 t2 t0)
    moreover have "dom (fs s) \<subseteq> dom (fs s1)" using g f0 by (simp add: s1)
    moreover have "dirs s \<subseteq> dirs s1" "closed_dirs (dirs s) \<longrightarrow> closed_dirs (dirs s1)"
      using d0 c0 by (simp_all add: s1 d2)
    ultimately show ?thesis by blast
  qed
qed

lemma copy_to_output_quiet: "quiet s (state_of (copy_to_output w c fp rel s))"
proof (cases "copy_to_output w c fp rel s")
  case (Done s1)
  from copy_to_output_Done[OF Done] Done show ?thesis
    unfolding quiet_def by auto
next
  case (Raised e s1)
  from copy_to_output_Raised[OF Raised] Raised show ?thesis
    unfolding quiet_def by auto
qed

lemma os_makedirs_quiet: "quiet s (state_of (os_makedirs w p s))"
proof (cases "os_makedirs w p s")
  case (Done s1)
  from os_makedirs_Done[OF Done] Done show ?thesis unfolding quiet_def by auto
next
  case (Raised e s1)
  from os_makedirs_Raised[OF Raised] Raised show ?thesis unfolding quiet_def by auto
qed

lemma print_info_quiet: "m = [] \<or> hd m \<noteq> CHR ''M'' \<Longrightarrow> quiet s (print_info m s)"
  unfolding quiet_def by (cases m) auto

lemma move_to_processed_structure:
  "quiet s (state_of (move_to_processed w c fp rel s)) \<or>
   (\<exists>s'. move_to_processed w c fp rel s = Done s')"
proof (cases "move_to_processed w c fp rel s")
  case (Done s1)
  then show ?thesis by simp
next
  case (Raised e s1)
  from move_to_processed_Raised[OF Raised] Raised show ?thesis unfolding quiet_def by auto
qed

lemma convert_office_file_structure:
  "quiet s (state_of (convert_office_file w c input_folder root filename s)) \<or>
   (\<exists>s1 s'. quiet s s1 \<and>
      move_to_processed w c (join root filename)
        (relpath (getcwd c) (join root filename) input_folder) s1 = Done s' \<and>
      convert_office_file w c input_folder root filename s = Done s')"
proof -
  let ?fp = "join root filename"
  let ?rel = "relpath (getcwd c) ?fp input_folder"
  let ?out = "output_pdf_path_of c ?rel"
  let ?r = "convert_office_file w c input_folder root filename s"
  have fin: "\<And>s1 r. quiet s s1 \<Longrightarrow> r = move_to_processed w c ?fp ?rel s1 \<Longrightarrow>
      quiet s (state_of r) \<or> (\<exists>s1 s'. quiet s s1 \<and> move_to_processed w c ?fp ?rel s1 = Done s' \<and> r = Done s')"
    using move_to_processed_structure[of _ w c ?fp ?rel] by (metis quiet_trans)
  have lift: "\<And>s1 r. quiet s s1 \<Longrightarrow>
      (\<exists>s'. r = Done s' \<and> (quiet s1 s' \<or> (\<exists>s2. quiet s1 s2 \<and> move_to_processed w c ?fp ?rel s2 = Done s'))) \<Longrightarrow>
      quiet s (state_of r) \<or> (\<exists>s1 s'. quiet s s1 \<and> move_to_processed w c ?fp ?rel s1 = Done s' \<and> r = Done s')"
    by (metis quiet_trans state_of.simps(1))
  show ?thesis
  proof (cases "os_makedirs w (dirname ?out) s")
    case (Raised e s1)
    with os_makedirs_quiet[of s w "dirname ?out"] show ?thesis
      by (simp add: convert_office_file_def Let_def)
  next
    case (Done s1)
    with os_makedirs_quiet[of s w "dirname ?out"] have q1: "quiet s s1" by simp
    show ?thesis
    proof (cases "exists s1 ?out")
      case True
      with Done have "?r = move_to_processed w c ?fp ?rel
          (print_info (''Skipping (already converted): '' @ ?rel) s1)"
        by (simp add: convert_office_file_def Let_def)
      moreover have "quiet s (print_info (''Skipping (already converted): '' @ ?rel) s1)"
        by (rule quiet_trans[OF q1]) (rule print_info_quiet, simp)
      ultimately show ?thesis by (rule fin[rotated])
    next
      case False
      let ?ext = "lower (snd (splitext filename))"
      consider (word) "?ext \<in> set [''.doc'', ''.docx'']"
        | (excel) "?ext \<notin> set [''.doc'', ''.docx'']" "?ext \<in> set [''.xls'', ''.xlsx'']"
        | (ppt) "?ext \<notin> set [''.doc'', ''.docx'']" "?ext \<notin> set [''.xls'', ''.xlsx'']"
                "?ext \<in> set [''.ppt'', ''.pptx'']"
        | (other) "?ext \<notin> set [''.doc'', ''.docx'']" "?ext \<notin> set [''.xls'', ''.xlsx'']"
                "?ext \<notin> set [''.ppt'', ''.pptx'']"
        by blast
      then show ?thesis
      proof cases
        case word
        with Done False have "?r = convert_word_to_pdf w c ?fp ?out ?rel s1"
          by (simp add: convert_office_file_def Let_def)
        with lift[OF q1 convert_word_to_pdf_structure[of w c ?fp ?out ?rel s1]]
        show ?thesis by simp
      next
        case excel
        with Done False have "?r = convert_excel_to_pdf w c ?fp ?out ?rel s1"
          by (simp add: convert_office_file_def Let_def)
        with lift[OF q1 convert_excel_to_pdf_structure[of w c ?fp ?out ?rel s1]]
        show ?thesis by simp
      next
        case ppt
        with Done False have "?r = convert_powerpoint_to_pdf w c ?fp ?out ?rel s1"
          by (simp add: convert_office_file_def Let_def)
        with lift[OF q1 convert_powerpoint_to_pdf_structure[of w c ?fp ?out ?rel s1]]
        show ?thesis by simp
      next
        case other
        let ?s2 = "print_info (''Skipping (unsupported file): '' @ ?rel) s1"
        have q2: "quiet s ?s2"
          by (rule quiet_trans[OF q1]) (rule print_info_quiet, simp)
        from other Done False have r: "?r = (case copy_to_output w c ?fp ?out ?s2 of
              Raised e s3 \<Rightarrow> Raised e s3
            | Done s3 \<Rightarrow> move_to_processed w c ?fp ?rel s3)"
          by (simp add: convert_office_file_def Let_def)
        note q3 = quiet_trans[OF q2 copy_to_output_quiet[of ?s2 w c ?fp ?out]]
        show ?thesis
        proof (cases "copy_to_output w c ?fp ?out ?s2")
          case (Raised e s3)
          with q3 r show ?thesis by simp
        next
          case d3: (Done s3)
          with q3 have "quiet s s3" by simp
          moreover from r d3 have "?r = move_to_processed w c ?fp ?rel s3" by simp
          ultimately show ?thesis by (rule fin)
        qed
      qed
    qed
  qed
qed

lemma quietE:
  assumes "quiet s s'"
  obtains evs where "trace s' = trace s @ evs" "filter is_move evs = []"
    "\<And>rel. Log INFO (''Moved to Processed: '' @ rel) \<notin> set evs"
    "dom (fs s) \<subseteq> dom (fs s')" "dirs s \<subseteq> dirs s'"
    "closed_dirs (dirs s) \<Longrightarrow> closed_dirs (dirs s')"
  using assms unfolding quiet_def by auto

lemma convert_office_file_facts:
  fixes w c input_folder root filename s
  defines "fp \<equiv> join root filename"
  defines "rel \<equiv> relpath (getcwd c) fp input_folder"
  defines "pp \<equiv> join (processed_base_folder c) rel"
  defines "s' \<equiv> state_of (convert_office_file w c input_folder root filename s)"
  shows "\<exists>evs. trace s' = trace s @ evs \<and> dirs s \<subseteq> dirs s' \<and>
      (closed_dirs (dirs s) \<longrightarrow> closed_dirs (dirs s')) \<and>
      (filter is_move evs = [] \<and> Log INFO (''Moved to Processed: '' @ rel) \<notin> set evs
           \<and> dom (fs s) \<subseteq> dom (fs s')
         \<or> (\<exists>pre l m. evs = pre @ [Makedirs (dirname pp), Move fp pp, Log l m] \<and>
               filter is_move pre = [] \<and> dirname pp \<in> dirs s' \<and>
               \<not> is_raised (convert_office_file w c input_folder root filename s) \<and>
               (fs s fp \<noteq> None \<longrightarrow>
                 (l = INFO \<and> m = ''Moved to Processed: '' @ rel \<and>
                    (pp \<notin> dirs s' \<and> \<not> samefile w fp pp \<longrightarrow> fs s' pp \<noteq> None \<and> fs s' fp = None) \<and>
                    (pp \<notin> dirs s' \<and> samefile w fp pp \<longrightarrow> fs s' fp \<noteq> None)
                  \<or> l = ERROR \<and> Log INFO (''Moved to Processed: '' @ rel) \<notin> set evs \<and>
                      fs s' fp \<noteq> None))))"
proof -
  let ?r = "convert_office_file w c input_folder root filename s"
  from convert_office_file_structure[of s w c input_folder root filename]
  consider (q) "quiet s s'"
    | (m) s1 s2 where "quiet s s1" "move_to_processed w c fp rel s1 = Done s2" "?r = Done s2"
    unfolding s'_def fp_def rel_def by blast
  then show ?thesis
  proof cases
    case q
    from q obtain evs where "trace s' = trace s @ evs" "filter is_move evs = []"
      "Log INFO (''Moved to Processed: '' @ rel) \<notin> set evs"
      "dom (fs s) \<subseteq> dom (fs s')" "dirs s \<subseteq> dirs s'"
      "closed_dirs (dirs s) \<longrightarrow> closed_dirs (dirs s')"
      by (rule quietE) blast
    then show ?thesis by blast
  next
    case m
    have s2: "s' = s2" using m(3) by (simp add: s'_def)
    from m(1) obtain evs1 where qe: "trace s1 = trace s @ evs1" "filter is_move evs1 = []"
      "Log INFO (''Moved to Processed: '' @ rel) \<notin> set evs1"
      "dom (fs s) \<subseteq> dom (fs s1)" "dirs s \<subseteq> dirs s1"
      "closed_dirs (dirs s) \<longrightarrow> closed_dirs (dirs s1)"
      by (rule quietE) blast
    from move_to_processed_Done[OF m(2)]
    have d: "dirs s1 \<subseteq> dirs s2" "dirname pp \<in> dirs s2"
      and cl1: "closed_dirs (dirs s1) \<longrightarrow> closed_dirs (dirs s2)"
      and sh: "(trace s2 = trace s1 @ [Makedirs (dirname pp), Move fp pp, Log INFO (''Moved to Processed: '' @ rel)] \<and>
           fs s1 fp \<noteq> None \<and>
           (pp \<notin> dirs s2 \<and> \<not> samefile w fp pp \<longrightarrow> fs s2 = ((fs s1)(fp := None))(pp := fs s1 fp)) \<and>
           (pp \<notin> dirs s2 \<and> samefile w fp pp \<longrightarrow> fs s2 = fs s1))
        \<or> (\<exists>e. trace s2 = trace s1 @ [Makedirs (dirname pp), Move fp pp,
                Log ERROR (''Error moving file '' @ fp @ '': '' @ str e)] \<and>
              dom (fs s1) \<subseteq> dom (fs s2) \<and> fs s2 fp = fs s1 fp)"
      unfolding pp_def by blast+
    have nr: "\<not> is_raised ?r" using m(3) by simp
    have dd: "dirs s \<subseteq> dirs s2" using qe(5) d(1) by blast
    have cl: "closed_dirs (dirs s) \<longrightarrow> closed_dirs (dirs s2)" using qe(6) cl1 by blast
    from sh show ?thesis
    proof
      assume a: "trace s2 = trace s1 @ [Makedirs (dirname pp), Move fp pp, Log INFO (''Moved to Processed: '' @ rel)] \<and>
           fs s1 fp \<noteq> None \<and>
           (pp \<notin> dirs s2 \<and> \<not> samefile w fp pp \<longrightarrow> fs s2 = ((fs s1)(fp := None))(pp := fs s1 fp)) \<and>
           (pp \<notin> dirs s2 \<and> samefile w fp pp \<longrightarrow> fs s2 = fs s1)"
      have t: "trace s2 = trace s @ (evs1 @ [Makedirs (dirname pp), Move fp pp, Log INFO (''Moved to Processed: '' @ rel)])"
        using a qe(1) by simp
      have ne: "\<not> samefile w fp pp \<Longrightarrow> fp \<noteq> pp" by (auto simp: samefile_def)
      from a ne have f: "pp \<notin> dirs s2 \<and> \<not> samefile w fp pp \<longrightarrow> fs s2 pp \<noteq> None \<and> fs s2 fp = None"
        by auto
      from a have g: "pp \<notin> dirs s2 \<and> samefile w fp pp \<longrightarrow> fs s2 fp \<noteq> None"
        by auto
      show ?thesis unfolding s2
        apply (rule exI[of _ "evs1 @ [Makedirs (dirname pp), Move fp pp, Log INFO (''Moved to Processed: '' @ rel)]"])
        apply (intro conjI t dd cl disjI2)
        apply (rule exI[of _ evs1], rule exI[of _ INFO], rule exI[of _ "''Moved to Processed: '' @ rel"])
        using qe(2) d(2) nr f g by (simp add: s2[symmetric])
    next
      assume "\<exists>e. trace s2 = trace s1 @ [Makedirs (dirname pp), Move fp pp,
                Log ERROR (''Error moving file '' @ fp @ '': '' @ str e)] \<and>
              dom (fs s1) \<subseteq> dom (fs s2) \<and> fs s2 fp = fs s1 fp"
      then obtain e where a: "trace s2 = trace s1 @ [Makedirs (dirname pp), Move fp pp,
                Log ERROR (''Error moving file '' @ fp @ '': '' @ str e)]" "fs s2 fp = fs s1 fp" by blast
      have t: "trace s2 = trace s @ (evs1 @ [Makedirs (dirname pp), Move fp pp,
                Log ERROR (''Error moving file '' @ fp @ '': '' @ str e)])"
        using a qe(1) by simp
      have keep: "fs s fp \<noteq> None \<longrightarrow> fs s2 fp \<noteq> None" using qe(4) a(2) by auto
      show ?thesis unfolding s2
        apply (rule exI[of _ "evs1 @ [Makedirs (dirname pp), Move fp pp,
                Log ERROR (''Error moving file '' @ fp @ '': '' @ str e)]"])
        apply (intro conjI t dd cl disjI2)
        apply (rule exI[of _ evs1], rule exI[of _ ERROR],
               rule exI[of _ "''Error moving file '' @ fp @ '': '' @ str e"])
        using qe(2,3) d(2) nr keep by (simp add: s2[symmetric])
    qed
  qed
qed


lemma os_makedirs_passes:
  "p \<noteq> [] \<Longrightarrow> \<forall>t. os_raises w t (Makedirs p) = None \<Longrightarrow> \<exists>s1. os_makedirs w p s = Done s1"
  by (simp add: os_makedirs_def)

lemma shutil_move_completes:
  "dst \<notin> dirs s \<Longrightarrow> fs s src \<noteq> None \<Longrightarrow>
   transfer w (length (trace s)) (Move src dst) = Completed \<Longrightarrow>
   \<exists>s1. shutil_move w src dst s = Done s1"
  by (simp add: shutil_move_def Let_def)

lemma move_to_processed_dirs:
  assumes "os_makedirs w (dirname (join (processed_base_folder c) rel)) s = Done s0"
  shows "dirs (state_of (move_to_processed w c fp rel s)) = dirs s0"
proof (cases "shutil_move w fp (join (processed_base_folder c) rel) s0")
  case (Done s2)
  from shutil_move_Done[OF Done] assms Done show ?thesis
    by (simp add: move_to_processed_def Let_def)
next
  case (Raised e s2)
  from shutil_move_Raised[OF Raised] assms Raised show ?thesis
    by (simp add: move_to_processed_def Let_def)
qed

lemma move_to_processed_completes:
  assumes src: "fs s fp \<noteq> None"
    and dn: "dirname (join (processed_base_folder c) rel) \<noteq> []"
    and mk: "\<forall>t. os_raises w t (Makedirs (dirname (join (processed_base_folder c) rel))) = None"
    and mv: "\<forall>t. transfer w t (Move fp (join (processed_base_folder c) rel)) = Completed"
    and nd: "join (processed_base_folder c) rel \<notin> dirs (state_of (move_to_processed w c fp rel s))"
  shows "\<exists>s2. move_to_processed w c fp rel s = Done s2 \<and>
     trace s2 = trace s @ [Makedirs (dirname (join (processed_base_folder c) rel)),
                           Move fp (join (processed_base_folder c) rel),
                           Log INFO (''Moved to Processed: '' @ rel)]"
proof -
  let ?pp = "join (processed_base_folder c) rel"
  from os_makedirs_passes[OF dn mk] obtain s0 where m0: "os_makedirs w (dirname ?pp) s = Done s0"
    by blast
  from os_makedirs_Done[OF m0] have t0: "trace s0 = trace s @ [Makedirs (dirname ?pp)]"
    and f0: "fs s0 = fs s" by blast+
  from nd move_to_processed_dirs[OF m0, of fp] have "?pp \<notin> dirs s0" by simp
  from shutil_move_completes[OF this, of fp w] src f0 mv
  obtain s1 where m1: "shutil_move w fp ?pp s0 = Done s1" by auto
  from shutil_move_Done[OF m1] have t1: "trace s1 = trace s0 @ [Move fp ?pp]" by blast
  from m0 m1 have "move_to_processed w c fp rel s = Done (print_info (''Moved to Processed: '' @ rel) s1)"
    by (simp add: move_to_processed_def Let_def)
  with t0 t1 show ?thesis by simp
qed

subsection \<open>Paths and directories\<close>

lemma parents_in_closed:
  assumes "closed_dirs D" and "dirname p \<in> D"
  shows "set (parents p) \<subseteq> D"
proof (cases "dirname p \<noteq> [] \<and> length (dirname p) < length p")
  case True
  then have "parents p = dirname p # parents (dirname p)" by (subst parents.simps) simp
  with assms show ?thesis unfolding closed_dirs_def by auto
next
  case False
  then have "parents p = []" by (subst parents.simps) simp
  then show ?thesis by simp
qed

lemma demo_closed: "closed_dirs (dirs demo_state)"
  unfolding closed_dirs_def demo_state_def by (simp; code_simp)

lemma length_head_part: "length (head_part p) \<le> length p"
  unfolding head_part_def using length_dropWhile_le[of "\<lambda>x. x \<noteq> sep" "rev p"] by simp

lemma length_rstrip: "length (rstrip c p) \<le> length p"
  unfolding rstrip_def using length_dropWhile_le[of "\<lambda>x. x = c" "rev p"] by simp

lemma length_dirname: "length (dirname p) \<le> length p"
  using length_head_part[of p] length_rstrip[of sep "head_part p"]
  by (auto simp: dirname_def Let_def)









lemma exists_mono:
  "exists s p \<Longrightarrow> fs s1 = fs s \<Longrightarrow> dirs s \<subseteq> dirs s1 \<Longrightarrow> exists s1 p"
  by (auto simp: exists_def split: option.splits)

subsection \<open>The relative path of a file below the root\<close>

lemma split_on_not_Nil [simp]: "split_on c s \<noteq> []"
  by (induction s) (auto split: list.splits)

lemma split_on_append: "split_on c (a @ c # b) = split_on c a @ split_on c b"
  by (induction a) (auto split: list.splits)

lemma split_on_free: "c \<notin> set b \<Longrightarrow> split_on c b = [b]"
  by (induction b) auto

lemma split_on_elems: "x \<in> set (split_on c s) \<Longrightarrow> c \<notin> set x"
  by (induction s arbitrary: x) (auto split: if_splits list.splits)

lemma split_sep_join:
  "L \<noteq> [] \<Longrightarrow> \<forall>x \<in> set L. sep \<notin> set x \<Longrightarrow> split_on sep (sep_join L) = L"
proof (induction L rule: sep_join.induct)
  case 1 then show ?case by simp
next
  case (2 x) then show ?case by (simp add: split_on_free)
next
  case (3 x y ys)
  then show ?case by (simp add: split_on_append split_on_free)
qed

lemma join_plain:
  "a \<noteq> [] \<Longrightarrow> plain b \<Longrightarrow> join a b = (if last a = sep then a @ b else a @ sep # b)"
  by (cases b) (auto simp: join_def plain_def)

lemma norm_step_plain: "plain b \<Longrightarrow> norm_step k acc b = acc @ [b]"
  by (simp add: norm_step_def plain_def)

lemma comps_join:
  assumes "a \<noteq> []" and "plain b"
  shows "comps (join a b) = comps a @ [b]"
proof (cases "last a = sep")
  case False
  with assms have "join a b = a @ sep # b" by (simp add: join_plain)
  moreover from assms have "split_on sep b = [b]" by (simp add: split_on_free plain_def)
  ultimately show ?thesis using assms
    by (simp add: comps_def split_on_append norm_step_plain)
next
  case True
  with assms obtain a' where a: "a = a' @ [sep]" by (cases a rule: rev_cases) auto
  with assms True have j: "join a b = a' @ sep # b" by (simp add: join_plain)
  from assms have sb: "split_on sep b = [b]" by (simp add: split_on_free plain_def)
  have sa: "split_on sep a = split_on sep a' @ [[]]"
    unfolding a using split_on_append[of sep a' "[]"] by simp
  show ?thesis unfolding comps_def j sa
    by (simp add: split_on_append sb norm_step_plain[OF assms(2)]) (simp add: norm_step_def)
qed

lemma norm_step_elems:
  assumes "\<forall>x \<in> set acc. x \<noteq> [] \<and> sep \<notin> set x" and "sep \<notin> set part"
  shows "\<forall>x \<in> set (norm_step k acc part). x \<noteq> [] \<and> sep \<notin> set x"
  using assms by (auto simp: norm_step_def dest: in_set_butlastD)

lemma foldl_norm_elems:
  assumes "\<forall>x \<in> set acc. x \<noteq> [] \<and> sep \<notin> set x" and "\<forall>p \<in> set ps. sep \<notin> set p"
  shows "\<forall>x \<in> set (foldl (norm_step k) acc ps). x \<noteq> [] \<and> sep \<notin> set x"
  using assms
proof (induction ps arbitrary: acc)
  case Nil then show ?case by simp
next
  case (Cons p ps)
  from norm_step_elems[OF Cons.prems(1), of p k] Cons.prems(2)
  have "\<forall>x \<in> set (norm_step k acc p). x \<noteq> [] \<and> sep \<notin> set x" by simp
  from Cons.IH[OF this] Cons.prems(2) show ?case by simp
qed

lemma comps_elems: "x \<in> set (comps p) \<Longrightarrow> x \<noteq> [] \<and> sep \<notin> set x"
  using foldl_norm_elems[of "[]" "split_on sep p" True] split_on_elems[of _ sep p]
  by (auto simp: comps_def)

lemma sep_join_hd:
  "L \<noteq> [] \<Longrightarrow> hd L \<noteq> [] \<Longrightarrow> sep_join L \<noteq> [] \<and> hd (sep_join L) = hd (hd L)"
  by (induction L rule: sep_join.induct) auto

lemma normpath_single_slash:
  assumes "isabs p" and "take 2 p \<noteq> ''//''"
  shows "normpath p = sep # sep_join (comps p)"
  using assms by (auto simp: normpath_def isabs_def comps_def Let_def)

lemma path_list_abs:
  assumes "isabs a" and "take 2 a \<noteq> ''//''"
  shows "lstrip sep (normpath a) = sep_join (comps a) \<and>
         (if lstrip sep (normpath a) = [] then [] else split_on sep (lstrip sep (normpath a))) = comps a"
proof (cases "comps a = []")
  case True
  then show ?thesis unfolding normpath_single_slash[OF assms] by (simp add: lstrip_def)
next
  case False
  then have h: "hd (comps a) \<in> set (comps a)" by simp
  from comps_elems[OF h] have ne: "hd (comps a) \<noteq> []" and ns: "sep \<notin> set (hd (comps a))" by blast+
  from sep_join_hd[OF False ne] have j: "sep_join (comps a) \<noteq> []"
    "hd (sep_join (comps a)) = hd (hd (comps a))" by blast+
  from ne ns have "hd (hd (comps a)) \<noteq> sep" by (cases "hd (comps a)") auto
  with j have l: "lstrip sep (sep # sep_join (comps a)) = sep_join (comps a)"
    by (cases "sep_join (comps a)") (auto simp: lstrip_def)
  from comps_elems have "\<forall>x \<in> set (comps a). sep \<notin> set x" by blast
  from split_sep_join[OF False this] l j show ?thesis
    unfolding normpath_single_slash[OF assms] by simp
qed

lemma join_hd: "a \<noteq> [] \<Longrightarrow> plain b \<Longrightarrow> join a b \<noteq> [] \<and> hd (join a b) = hd a"
  by (simp add: join_plain)

lemma take2_join:
  assumes "isabs a" and "take 2 a \<noteq> ''//''" and "plain b"
  shows "take 2 (join a b) \<noteq> ''//''"
proof -
  from assms(1) obtain rest where a: "a = sep # rest" by (cases a) (auto simp: isabs_def)
  show ?thesis
  proof (cases rest)
    case Nil
    with a assms(3) have "join a b = sep # b" by (simp add: join_plain)
    with assms(3) show ?thesis by (cases b) (auto simp: plain_def sep_def)
  next
    case (Cons x r)
    with a assms(2) have "x \<noteq> CHR ''/''" by (simp add: sep_def)
    with a Cons assms(3) show ?thesis by (simp add: join_plain sep_def)
  qed
qed

lemma below_props:
  assumes "a \<noteq> []" and "list_all plain ds"
  shows "below a ds \<noteq> [] \<and> hd (below a ds) = hd a \<and> comps (below a ds) = comps a @ ds"
  using assms
proof (induction ds arbitrary: a)
  case Nil then show ?case by simp
next
  case (Cons d ds)
  from Cons.prems have pd: "plain d" and pds: "list_all plain ds" by simp_all
  from join_hd[OF Cons.prems(1) pd] have j: "join a d \<noteq> []" "hd (join a d) = hd a" by blast+
  from Cons.IH[OF j(1) pds] j(2) comps_join[OF Cons.prems(1) pd] show ?case by simp
qed

lemma below_take2:
  assumes "isabs a" and "take 2 a \<noteq> ''//''" and "list_all plain ds"
  shows "take 2 (below a ds) \<noteq> ''//''"
  using assms
proof (induction ds arbitrary: a)
  case Nil then show ?case by simp
next
  case (Cons d ds)
  from Cons.prems have pd: "plain d" and pds: "list_all plain ds" by simp_all
  from Cons.prems(1) have ne: "a \<noteq> []" by (auto simp: isabs_def)
  from join_hd[OF ne pd] Cons.prems(1) have ia: "isabs (join a d)" by (simp add: isabs_def)
  from Cons.IH[OF ia take2_join[OF Cons.prems(1,2) pd] pds] show ?case by simp
qed

lemma join_assoc:
  assumes "a \<noteq> []" and "b \<noteq> []" and "\<not> isabs b" and "plain c"
  shows "join a (join b c) = join (join a b) c"
proof -
  from assms(2,3) have hb: "hd b \<noteq> sep" by (simp add: isabs_def)
  have jbc: "join b c = (if last b = sep then b @ c else b @ sep # c)"
    by (rule join_plain[OF assms(2,4)])
  from assms(2) hb have h1: "hd (join b c) \<noteq> sep" "join b c \<noteq> []"
    unfolding jbc by (cases b; auto)+
  have jab: "join a b = (if last a = sep then a @ b else a @ sep # b)"
    using assms(1,2) hb by (auto simp: join_def)
  have l: "join a b \<noteq> []" "last (join a b) = last b"
    unfolding jab using assms(2) by auto
  have lhs: "join a (join b c) = (if last a = sep then a @ join b c else a @ sep # join b c)"
    using assms(1) h1 by (auto simp: join_def)
  have rhs: "join (join a b) c = (if last b = sep then join a b @ c else join a b @ sep # c)"
    using join_plain[OF l(1) assms(4)] l(2) by simp
  from lhs rhs show ?thesis
    by (cases "last a = sep"; cases "last b = sep") (simp_all add: jbc jab)
qed

lemma below_assoc:
  assumes "a \<noteq> []" and "b \<noteq> []" and "\<not> isabs b" and "list_all plain ds"
  shows "join a (below b ds) = below (join a b) ds"
  using assms(2-)
proof (induction ds arbitrary: b)
  case Nil then show ?case by simp
next
  case (Cons d ds)
  from Cons.prems have pd: "plain d" and pds: "list_all plain ds" by simp_all
  from join_hd[OF Cons.prems(1) pd] Cons.prems(2)
  have j: "join b d \<noteq> []" "\<not> isabs (join b d)"
    using Cons.prems(1) by (simp_all add: isabs_def)
  from Cons.IH[OF j pds] join_assoc[OF assms(1) Cons.prems(1,2) pd] show ?case by simp
qed

lemma anchored_root:
  assumes "isabs cwd" and "take 2 cwd \<noteq> ''//''" and "p \<noteq> []" and "take 2 p \<noteq> ''//''"
  shows "isabs (anchored cwd p) \<and> take 2 (anchored cwd p) \<noteq> ''//''"
proof (cases "isabs p")
  case True
  with assms show ?thesis by (simp add: anchored_def)
next
  case False
  with assms(3) have hp: "hd p \<noteq> sep" by (simp add: isabs_def)
  from assms(1) obtain rest where c: "cwd = sep # rest" by (cases cwd) (auto simp: isabs_def)
  have j: "join cwd p = (if last cwd = sep then cwd @ p else cwd @ sep # p)"
    using assms(3) hp c by (auto simp: join_def)
  show ?thesis
  proof (cases rest)
    case Nil
    with c j assms(3) hp False show ?thesis
      by (cases p) (auto simp: anchored_def isabs_def sep_def)
  next
    case (Cons x r)
    with c assms(2) have "x \<noteq> CHR ''/''" by (simp add: sep_def)
    with c Cons j False show ?thesis
      by (auto simp: anchored_def isabs_def sep_def)
  qed
qed

lemma anchored_below:
  assumes "isabs cwd" and "p \<noteq> []" and "list_all plain ds" and "plain name"
  shows "anchored cwd (join (below p ds) name) = join (below (anchored cwd p) ds) name"
proof -
  from below_props[OF assms(2,3)] have b: "below p ds \<noteq> []" "hd (below p ds) = hd p" by blast+
  from join_hd[OF b(1) assms(4)] b(2)
  have h: "join (below p ds) name \<noteq> []" "hd (join (below p ds) name) = hd p" by simp_all
  from assms(1) have cne: "cwd \<noteq> []" by (auto simp: isabs_def)
  show ?thesis
  proof (cases "isabs p")
    case True
    with h assms(2) show ?thesis by (simp add: anchored_def isabs_def)
  next
    case False
    with h assms(2) have n: "\<not> isabs (join (below p ds) name)" by (simp add: isabs_def)
    from False b assms(2) have nb: "\<not> isabs (below p ds)" by (simp add: isabs_def)
    from join_assoc[OF cne b(1) nb assms(4)] below_assoc[OF cne assms(2) False assms(3)]
    show ?thesis using n False by (simp add: anchored_def)
  qed
qed

lemma path_list_anchored:
  assumes "isabs (anchored cwd p)" and "take 2 (anchored cwd p) \<noteq> ''//''"
  shows "path_list cwd p = comps (anchored cwd p)"
proof -
  have eq: "abspath cwd p = normpath (anchored cwd p)"
    by (simp add: abspath_def anchored_def)
  from path_list_abs[OF assms]
  have "(if lstrip sep (normpath (anchored cwd p)) = [] then []
         else split_on sep (lstrip sep (normpath (anchored cwd p)))) = comps (anchored cwd p)"
    by (rule conjunct2)
  then show ?thesis unfolding path_list_def Let_def eq .
qed

lemma commonprefix_append: "commonprefix N (N @ r) = N"
  by (induction N) auto

lemma sep_join_not_Nil: "L \<noteq> [] \<Longrightarrow> \<forall>x \<in> set L. x \<noteq> [] \<Longrightarrow> sep_join L \<noteq> []"
  by (induction L rule: sep_join.induct) auto

lemma relpath_below_root:
  assumes "isabs cwd" and "take 2 cwd \<noteq> ''//''"
    and "input_folder \<noteq> []" and "take 2 input_folder \<noteq> ''//''"
    and "list_all plain ds" and "plain name"
  shows "relpath cwd (join (below input_folder ds) name) input_folder = sep_join (ds @ [name])"
proof -
  let ?A = "anchored cwd input_folder"
  let ?P = "join (below ?A ds) name"
  from anchored_root[OF assms(1-4)] have A: "isabs ?A" "take 2 ?A \<noteq> ''//''" by blast+
  then have Ane: "?A \<noteq> []" by (auto simp: isabs_def)
  from below_props[OF Ane assms(5)]
  have B: "below ?A ds \<noteq> []" "hd (below ?A ds) = hd ?A" "comps (below ?A ds) = comps ?A @ ds"
    by blast+
  from B A have Bi: "isabs (below ?A ds)" by (simp add: isabs_def)
  from join_hd[OF B(1) assms(6)] Bi have Pi: "isabs ?P" by (simp add: isabs_def)
  from take2_join[OF Bi below_take2[OF A assms(5)] assms(6)] have P2: "take 2 ?P \<noteq> ''//''" .
  have cp: "comps ?P = comps ?A @ ds @ [name]"
    using comps_join[OF B(1) assms(6)] B(3) by simp
  have sl: "path_list cwd input_folder = comps ?A"
    by (rule path_list_anchored[OF A])
  note ab = anchored_below[OF assms(1,3,5,6)]
  have pl: "path_list cwd (join (below input_folder ds) name) = comps ?P"
    using path_list_anchored[of cwd "join (below input_folder ds) name"] Pi P2
    unfolding ab by simp
  show ?thesis
    unfolding relpath_def sl pl cp by (simp add: Let_def commonprefix_append)
qed
section \<open>The claims\<close>

text \<open>
  C6. In \<open>convert_word_to_pdf\<close> the branch guarded by \<open>attempt > 3\<close>, which logs a final
  failure and re-raises, is never taken: the loop variable ranges over 0, 1, 2, so for
  every world, configuration, arguments and state the function returns normally and
  never logs the line \<open>Failed to convert Word file\<close>.
\<close>

theorem word_escalation_unreachable:
  "\<not> is_raised (convert_word_to_pdf w c input_path output_path rel_path s) \<and>
   (\<forall>m. Log ERROR (''Failed to convert Word file '' @ m) \<notin>
          set (new_events s (state_of (convert_word_to_pdf w c input_path output_path rel_path s))))"
proof -
  from convert_word_to_pdf_structure[of w c input_path output_path rel_path s]
  obtain s' where d: "convert_word_to_pdf w c input_path output_path rel_path s = Done s'"
    and q: "quiet s s' \<or> (\<exists>s1. quiet s s1 \<and> move_to_processed w c input_path rel_path s1 = Done s')"
    by blast
  from q have "\<forall>m. Log ERROR (''Failed to convert Word file '' @ m) \<notin> set (new_events s s')"
  proof
    assume "quiet s s'"
    then show ?thesis unfolding quiet_def by (auto simp: new_events_def)
  next
    assume "\<exists>s1. quiet s s1 \<and> move_to_processed w c input_path rel_path s1 = Done s'"
    then obtain s1 where "quiet s s1" and m: "move_to_processed w c input_path rel_path s1 = Done s'"
      by blast
    with move_to_processed_Done[OF m] show ?thesis
      unfolding quiet_def by (auto simp: new_events_def)
  qed
  with d show ?thesis by simp
qed

theorem word_escalation_unreachable_witness:
  "\<not> is_raised (convert_word_to_pdf office_down demo_config ''in/a/report.docx''
                    ''out/a/report.pdf'' ''a/report.docx'' demo_state) \<and>
   (\<forall>m. Log ERROR (''Failed to convert Word file '' @ m) \<notin>
          set (new_events demo_state (state_of (convert_word_to_pdf office_down demo_config
                ''in/a/report.docx'' ''out/a/report.pdf'' ''a/report.docx'' demo_state))))"
  by (rule word_escalation_unreachable)

text \<open>With the loop variable at 4 the same loop body does log the line and re-raise.\<close>

lemma escalation_branch_is_live:
  "word_attempts office_down demo_config [4] ''in/a/report.docx'' ''out/a/report.pdf''
     ''a/report.docx'' demo_state =
   Raised (ComError ''Call was rejected by callee.'')
     (demo_state\<lparr>trace :=
        [Convert Word ''in/a/report.docx'' ''out/a/report.pdf'',
         Log ERROR ''Error converting Word file a/report.docx: Call was rejected by callee.'',
         Log INFO ''Retrying attempt #5/3'',
         Log ERROR ''Failed to convert Word file a/report.docx: Call was rejected by callee.'']\<rparr>)"
  by (simp add: word_try_def office_export_def office_down_def demo_state_def emit_def
        print_error_def print_info_def str_int_def str_nat.simps)

text \<open>
  C4. The Word handler runs the application at most 3 times, and exactly 3 times on an
  input whose conversion fails every time; the Excel and PowerPoint handlers run it
  exactly once, whether it fails or not.
\<close>

theorem retry_bounds:
  "length (filter is_convert (new_events s (state_of
       (convert_word_to_pdf w c input_path output_path rel_path s)))) \<le> 3 \<and>
   ((\<forall>t. com_outcome w t Word input_path output_path \<noteq> Converted) \<longrightarrow>
      filter is_convert (new_events s (state_of
        (convert_word_to_pdf w c input_path output_path rel_path s))) =
      replicate 3 (Convert Word input_path output_path)) \<and>
   filter is_convert (new_events s (state_of
       (convert_excel_to_pdf w c input_path output_path rel_path s))) =
     [Convert Excel input_path output_path] \<and>
   filter is_convert (new_events s (state_of
       (convert_powerpoint_to_pdf w c input_path output_path rel_path s))) =
     [Convert PowerPoint input_path output_path]"
proof (intro conjI impI)
  from word_attempts_converts[of w c "map int [0..<3]" input_path output_path rel_path s]
  show "length (filter is_convert (new_events s (state_of
       (convert_word_to_pdf w c input_path output_path rel_path s)))) \<le> 3"
    unfolding convert_word_to_pdf_def by (auto simp: new_events_def)
next
  assume "\<forall>t. com_outcome w t Word input_path output_path \<noteq> Converted"
  from word_attempts_all_fail[OF this, of "map int [0..<3]" c rel_path s]
  show "filter is_convert (new_events s (state_of
        (convert_word_to_pdf w c input_path output_path rel_path s))) =
      replicate 3 (Convert Word input_path output_path)"
    unfolding convert_word_to_pdf_def by (auto simp: new_events_def)
next
  from excel_converts[of w c input_path output_path rel_path s]
  show "filter is_convert (new_events s (state_of
       (convert_excel_to_pdf w c input_path output_path rel_path s))) =
     [Convert Excel input_path output_path]"
    by (auto simp: new_events_def)
next
  from powerpoint_converts[of w c input_path output_path rel_path s]
  show "filter is_convert (new_events s (state_of
       (convert_powerpoint_to_pdf w c input_path output_path rel_path s))) =
     [Convert PowerPoint input_path output_path]"
    by (auto simp: new_events_def)
qed

theorem retry_bounds_witness:
  "(\<forall>t. com_outcome office_down t Word ''in/a/report.docx'' ''out/a/report.pdf'' \<noteq> Converted) \<and>
   filter is_convert (new_events demo_state (state_of
        (convert_word_to_pdf office_down demo_config ''in/a/report.docx'' ''out/a/report.pdf''
           ''a/report.docx'' demo_state))) =
      replicate 3 (Convert Word ''in/a/report.docx'' ''out/a/report.pdf'')"
proof -
  have h: "\<forall>t. com_outcome office_down t Word ''in/a/report.docx'' ''out/a/report.pdf'' \<noteq> Converted"
    by (simp add: office_down_def)
  with retry_bounds[of demo_state office_down demo_config "''in/a/report.docx''"
      "''out/a/report.pdf''" "''a/report.docx''"]
  show ?thesis by blast
qed

text \<open>The \<open>put_object\<close> calls of a run against the list keyed by relative paths.\<close>

lemma put_calls_keyed:
  "prefix (filter is_put (new_events s (state_of
             (upload_to_oci w cwd bucket_name namespace folder_path walk s))))
          (keyed_uploads cwd bucket_name namespace folder_path walk) \<and>
   ((\<forall>t. os_raises w t (Get_bucket namespace bucket_name) = None) \<and>
    \<not> is_raised (upload_to_oci w cwd bucket_name namespace folder_path walk s) \<longrightarrow>
      filter is_put (new_events s (state_of
             (upload_to_oci w cwd bucket_name namespace folder_path walk s))) =
        keyed_uploads cwd bucket_name namespace folder_path walk)"
proof (cases "external w Client_init s")
  case (Raised e s1)
  with external_Raised[OF Raised] show ?thesis
    by (simp add: upload_to_oci_def new_events_def)
next
  case (Done s1)
  note d1 = external_Done[OF Done]
  show ?thesis
  proof (cases "external w (Get_bucket namespace bucket_name) s1")
    case (Raised e s2)
    with Done d1 external_Raised[OF Raised] show ?thesis
      by (cases e) (auto simp: upload_to_oci_def new_events_def)
  next
    case d2: (Done s2)
    from Done d2 have eq: "upload_to_oci w cwd bucket_name namespace folder_path walk s =
        upload_walk w cwd bucket_name namespace folder_path walk s2"
      by (simp add: upload_to_oci_def)
    from d1 external_Done[OF d2] have t2: "trace s2 = trace s @ [Client_init, Get_bucket namespace bucket_name]"
      by simp
    from upload_walk_puts[of w cwd bucket_name namespace folder_path walk s2] obtain evs where
      evs: "trace (state_of (upload_walk w cwd bucket_name namespace folder_path walk s2)) = trace s2 @ evs"
      by blast
    have ne: "filter is_put (new_events s (state_of (upload_walk w cwd bucket_name namespace folder_path walk s2)))
        = filter is_put (new_events s2 (state_of (upload_walk w cwd bucket_name namespace folder_path walk s2)))"
      using new_events_trans[OF t2 evs] t2 by (simp add: new_events_append[OF t2])
    from upload_walk_puts[of w cwd bucket_name namespace folder_path walk s2] show ?thesis
      unfolding eq ne by blast
  qed
qed

text \<open>
  C8. Every \<open>put_object\<close> call of \<open>upload_to_oci\<close> names its object by the file's path
  relative to the folder root: the calls made are an initial part of the list with one
  call per discovered file, each keyed by \<open>relpath(file_path, folder_path)\<close>, and they are
  the whole list when the bucket check passes and the function returns. For a file named
  \<open>file_name\<close> in the directory reached from the folder root through the directories
  \<open>ds\<close>, that key is the names \<open>ds\<close> and \<open>file_name\<close> joined by the separator.
\<close>

theorem object_key_is_relative_path:
  "prefix (filter is_put (new_events s (state_of
             (upload_to_oci w cwd bucket_name namespace folder_path walk s))))
          (keyed_uploads cwd bucket_name namespace folder_path walk) \<and>
   ((\<forall>t. os_raises w t (Get_bucket namespace bucket_name) = None) \<and>
    \<not> is_raised (upload_to_oci w cwd bucket_name namespace folder_path walk s) \<longrightarrow>
      filter is_put (new_events s (state_of
             (upload_to_oci w cwd bucket_name namespace folder_path walk s))) =
        keyed_uploads cwd bucket_name namespace folder_path walk) \<and>
   (isabs cwd \<and> take 2 cwd \<noteq> ''//'' \<and> folder_path \<noteq> [] \<and> take 2 folder_path \<noteq> ''//'' \<and>
    list_all plain ds \<and> plain file_name \<longrightarrow>
      keyed_uploads cwd bucket_name namespace folder_path [(below folder_path ds, [file_name])] =
        [Put_object namespace bucket_name (sep_join (ds @ [file_name]))
           (join (below folder_path ds) file_name)])"
proof (intro conjI impI)
  show "prefix (filter is_put (new_events s (state_of
             (upload_to_oci w cwd bucket_name namespace folder_path walk s))))
          (keyed_uploads cwd bucket_name namespace folder_path walk)"
    using put_calls_keyed[of s w cwd bucket_name namespace folder_path walk] by (rule conjunct1)
next
  assume "(\<forall>t. os_raises w t (Get_bucket namespace bucket_name) = None) \<and>
    \<not> is_raised (upload_to_oci w cwd bucket_name namespace folder_path walk s)"
  with put_calls_keyed[of s w cwd bucket_name namespace folder_path walk]
  show "filter is_put (new_events s (state_of
             (upload_to_oci w cwd bucket_name namespace folder_path walk s))) =
        keyed_uploads cwd bucket_name namespace folder_path walk"
    by blast
next
  assume "isabs cwd \<and> take 2 cwd \<noteq> ''//'' \<and> folder_path \<noteq> [] \<and> take 2 folder_path \<noteq> ''//'' \<and>
    list_all plain ds \<and> plain file_name"
  then have "relpath cwd (join (below folder_path ds) file_name) folder_path =
      sep_join (ds @ [file_name])"
    by (intro relpath_below_root) simp_all
  then show "keyed_uploads cwd bucket_name namespace folder_path
        [(below folder_path ds, [file_name])] =
        [Put_object namespace bucket_name (sep_join (ds @ [file_name]))
           (join (below folder_path ds) file_name)]"
    by (simp add: keyed_uploads_def)
qed

lemma demo_upload_returns:
  "\<not> is_raised (upload_to_oci calm ''/work'' ''bucket'' ''ns'' ''in'' demo_walk demo_state)"
  by code_simp

lemma demo_keys:
  "keyed_uploads ''/work'' ''bucket'' ''ns'' ''in'' demo_walk =
     [Put_object ''ns'' ''bucket'' ''readme.txt'' ''in/readme.txt'',
      Put_object ''ns'' ''bucket'' ''a/report.docx'' ''in/a/report.docx'',
      Put_object ''ns'' ''bucket'' ''a/b/data.xlsx'' ''in/a/b/data.xlsx'']"
  by code_simp

theorem object_key_is_relative_path_witness:
  "(\<forall>t. os_raises calm t (Get_bucket ''ns'' ''bucket'') = None) \<and>
   \<not> is_raised (upload_to_oci calm ''/work'' ''bucket'' ''ns'' ''in'' demo_walk demo_state) \<and>
   filter is_put (new_events demo_state (state_of
       (upload_to_oci calm ''/work'' ''bucket'' ''ns'' ''in'' demo_walk demo_state))) =
     [Put_object ''ns'' ''bucket'' ''readme.txt'' ''in/readme.txt'',
      Put_object ''ns'' ''bucket'' ''a/report.docx'' ''in/a/report.docx'',
      Put_object ''ns'' ''bucket'' ''a/b/data.xlsx'' ''in/a/b/data.xlsx''] \<and>
   isabs ''/work'' \<and> take 2 ''/work'' \<noteq> ''//'' \<and> ''in'' \<noteq> [] \<and> take 2 ''in'' \<noteq> ''//'' \<and>
   list_all plain [''a'', ''b''] \<and> plain ''data.xlsx'' \<and>
   keyed_uploads ''/work'' ''bucket'' ''ns'' ''in'' [(below ''in'' [''a'', ''b''], [''data.xlsx''])] =
     [Put_object ''ns'' ''bucket'' (sep_join ([''a'', ''b''] @ [''data.xlsx'']))
        (join (below ''in'' [''a'', ''b'']) ''data.xlsx'')]"
proof -
  have h1: "\<forall>t. os_raises calm t (Get_bucket ''ns'' ''bucket'') = None"
    by (simp add: calm_def)
  note h2 = demo_upload_returns
  have h3: "isabs ''/work'' \<and> take 2 ''/work'' \<noteq> ''//'' \<and> ''in'' \<noteq> [] \<and> take 2 ''in'' \<noteq> ''//'' \<and>
     list_all plain [''a'', ''b''] \<and> plain ''data.xlsx''"
    by code_simp
  note t = object_key_is_relative_path[of demo_state calm "''/work''" "''bucket''" "''ns''" "''in''"
      demo_walk "[''a'', ''b'']" "''data.xlsx''"]
  from t h1 h2
  have a: "filter is_put (new_events demo_state (state_of
       (upload_to_oci calm ''/work'' ''bucket'' ''ns'' ''in'' demo_walk demo_state))) =
     keyed_uploads ''/work'' ''bucket'' ''ns'' ''in'' demo_walk"
    by blast
  from t h3
  have b: "keyed_uploads ''/work'' ''bucket'' ''ns'' ''in'' [(below ''in'' [''a'', ''b''], [''data.xlsx''])] =
     [Put_object ''ns'' ''bucket'' (sep_join ([''a'', ''b''] @ [''data.xlsx'']))
        (join (below ''in'' [''a'', ''b'']) ''data.xlsx'')]"
    by blast
  from h1 h2 h3 a b show ?thesis unfolding demo_keys by (intro conjI) blast+
qed

text \<open>
  C10. When the bucket check raises a service error, \<open>upload_to_oci\<close> prints the message
  and returns: after the check nothing is opened and nothing is uploaded.
\<close>

theorem bucket_check_failure_uploads_nothing:
  assumes "os_raises w (length (trace s)) Client_init = None"
    and "os_raises w (Suc (length (trace s))) (Get_bucket namespace bucket_name) = Some (ServiceError m)"
  shows "\<not> is_raised (upload_to_oci w cwd bucket_name namespace folder_path walk s) \<and>
     new_events s (state_of (upload_to_oci w cwd bucket_name namespace folder_path walk s)) =
       [Client_init, Get_bucket namespace bucket_name,
        Print (''Bucket '' @ [CHR 0x27] @ bucket_name @ [CHR 0x27]
                 @ '' does not exist or is not accessible: '' @ m)] \<and>
     filter is_upload_call (new_events s (state_of
         (upload_to_oci w cwd bucket_name namespace folder_path walk s))) = []"
  using assms
  by (simp add: upload_to_oci_def external_def new_events_def)

theorem bucket_check_failure_uploads_nothing_witness:
  "os_raises no_bucket (length (trace demo_state)) Client_init = None \<and>
   os_raises no_bucket (Suc (length (trace demo_state))) (Get_bucket ''ns'' ''bucket'') =
     Some (ServiceError ''BucketNotFound'') \<and>
   \<not> is_raised (upload_to_oci no_bucket ''/work'' ''bucket'' ''ns'' ''in'' demo_walk demo_state) \<and>
   filter is_upload_call (new_events demo_state (state_of
       (upload_to_oci no_bucket ''/work'' ''bucket'' ''ns'' ''in'' demo_walk demo_state))) = []"
proof -
  have h1: "os_raises no_bucket (length (trace demo_state)) Client_init = None"
    by (simp add: no_bucket_def)
  have h2: "os_raises no_bucket (Suc (length (trace demo_state))) (Get_bucket ''ns'' ''bucket'') =
     Some (ServiceError ''BucketNotFound'')"
    by (simp add: no_bucket_def)
  from bucket_check_failure_uploads_nothing[OF h1 h2, of "''/work''" "''in''" demo_walk] h1 h2
  show ?thesis by blast
qed

text \<open>
  C7, as the claim states it, fails: the upload loop has no handler around \<open>open\<close> and
  \<open>put_object\<close>. In a world where every \<open>put_object\<close> is refused, \<open>upload_to_oci\<close> raises
  at the first of the three files of the sample tree and the other two are never opened.
\<close>

theorem upload_failure_counterexample:
  "is_raised (upload_to_oci upload_refused ''/work'' ''bucket'' ''ns'' ''in'' demo_walk demo_state) \<and>
   filter is_upload_call (trace (state_of
       (upload_to_oci upload_refused ''/work'' ''bucket'' ''ns'' ''in'' demo_walk demo_state))) =
     [Open_rb ''in/readme.txt'', Put_object ''ns'' ''bucket'' ''readme.txt'' ''in/readme.txt'']"
  by code_simp

text \<open>
  C7, amended. An exception raised while uploading one file (by \<open>open\<close> or by
  \<open>put_object\<close>) leaves \<open>upload_to_oci\<close> as that exception, in the state reached at the
  failing call: the files and directories after it in the walk are not attempted. At most
  the failing file's own \<open>put_object\<close> call was made after the files before it.
\<close>

theorem upload_failure_ends_walk:
  assumes "external w Client_init s = Done sa"
    and "external w (Get_bucket namespace bucket_name) sa = Done sb"
    and "upload_walk w cwd bucket_name namespace folder_path earlier sb = Done s0"
    and "upload_files w cwd bucket_name namespace folder_path root before s0 = Done s1"
    and "upload_file w cwd bucket_name namespace folder_path root file_name s1 = Raised e s2"
  shows "upload_to_oci w cwd bucket_name namespace folder_path
           (earlier @ (root, before @ file_name # after) # later) s = Raised e s2 \<and>
         (\<exists>evs. trace s2 = trace s1 @ evs \<and>
            prefix (filter is_put evs)
              [Put_object namespace bucket_name
                 (relpath cwd (join root file_name) folder_path) (join root file_name)])"
proof
  from upload_files_abort[OF assms(4,5)]
  have "upload_files w cwd bucket_name namespace folder_path root (before @ file_name # after) s0
           = Raised e s2" .
  with assms(3) have "upload_walk w cwd bucket_name namespace folder_path
           (earlier @ (root, before @ file_name # after) # later) sb = Raised e s2"
    by (induction earlier arbitrary: sb) (auto split: outcome.splits)
  with assms(1,2) show "upload_to_oci w cwd bucket_name namespace folder_path
           (earlier @ (root, before @ file_name # after) # later) s = Raised e s2"
    by (simp add: upload_to_oci_def)
next
  from upload_file_Raised[OF assms(5)]
  show "\<exists>evs. trace s2 = trace s1 @ evs \<and>
            prefix (filter is_put evs)
              [Put_object namespace bucket_name
                 (relpath cwd (join root file_name) folder_path) (join root file_name)]"
    by (auto simp: new_events_def)
qed

theorem upload_failure_ends_walk_witness:
  "external upload_refused Client_init demo_state = Done (emit Client_init demo_state) \<and>
   external upload_refused (Get_bucket ''ns'' ''bucket'') (emit Client_init demo_state) =
     Done checked_state \<and>
   upload_walk upload_refused ''/work'' ''bucket'' ''ns'' ''in'' [] checked_state = Done checked_state \<and>
   upload_files upload_refused ''/work'' ''bucket'' ''ns'' ''in'' ''in'' [] checked_state =
     Done checked_state \<and>
   upload_file upload_refused ''/work'' ''bucket'' ''ns'' ''in'' ''in'' ''readme.txt'' checked_state =
     Raised (ServiceError ''TooManyRequests'')
       (state_of (upload_file upload_refused ''/work'' ''bucket'' ''ns'' ''in'' ''in'' ''readme.txt''
                    checked_state)) \<and>
   upload_to_oci upload_refused ''/work'' ''bucket'' ''ns'' ''in''
       ([] @ (''in'', [] @ ''readme.txt'' # []) # [(''in/a'', [''report.docx'']), (''in/a/b'', [''data.xlsx''])])
       demo_state =
     Raised (ServiceError ''TooManyRequests'')
       (state_of (upload_file upload_refused ''/work'' ''bucket'' ''ns'' ''in'' ''in'' ''readme.txt''
                    checked_state))"
proof -
  have h1: "external upload_refused Client_init demo_state = Done (emit Client_init demo_state)"
    by (simp add: external_def upload_refused_def)
  have h2: "external upload_refused (Get_bucket ''ns'' ''bucket'') (emit Client_init demo_state) =
     Done checked_state"
    by (simp add: external_def upload_refused_def checked_state_def)
  have h3: "upload_walk upload_refused ''/work'' ''bucket'' ''ns'' ''in'' [] checked_state =
     Done checked_state" by simp
  have h4: "upload_files upload_refused ''/work'' ''bucket'' ''ns'' ''in'' ''in'' [] checked_state =
     Done checked_state" by simp
  have h5: "upload_file upload_refused ''/work'' ''bucket'' ''ns'' ''in'' ''in'' ''readme.txt'' checked_state =
     Raised (ServiceError ''TooManyRequests'')
       (state_of (upload_file upload_refused ''/work'' ''bucket'' ''ns'' ''in'' ''in'' ''readme.txt''
                    checked_state))"
    by (simp add: upload_file_def open_rb_def external_def upload_refused_def checked_state_def
          demo_state_def Let_def emit_def join_def sep_def)
  from upload_failure_ends_walk[OF h1 h2 h3 h4 h5,
      of "[]" "[(''in/a'', [''report.docx'']), (''in/a/b'', [''data.xlsx''])]"]
  have "upload_to_oci upload_refused ''/work'' ''bucket'' ''ns'' ''in''
       ([] @ (''in'', [] @ ''readme.txt'' # []) # [(''in/a'', [''report.docx'']), (''in/a/b'', [''data.xlsx''])])
       demo_state =
     Raised (ServiceError ''TooManyRequests'')
       (state_of (upload_file upload_refused ''/work'' ''bucket'' ''ns'' ''in'' ''in'' ''readme.txt''
                    checked_state))" by (rule conjunct1)
  with h1 h2 h3 h4 h5 show ?thesis by (intro conjI)
qed




text \<open>
  On the sample tree the walk finds each of the three files once, and the run moves each
  to the archive.
\<close>

lemma demo_run_moves:
  "map_option (\<lambda>r. filter is_move (trace (state_of r)))
       (convert_office_files_recursively 4 calm demo_config ''in'' demo_state) =
     Some [Move ''in/readme.txt'' ''proc/readme.txt'',
           Move ''in/a/report.docx'' ''proc/a/report.docx'',
           Move ''in/a/b/data.xlsx'' ''proc/a/b/data.xlsx'']"
  by code_simp

text \<open>
  The moves of one file, and of \<open>move_to_processed\<close>: one call, at the archive root joined
  with the relative path, directly after the \<open>os.makedirs\<close> of that path's directory; with
  directories closed under ancestors at the start, every ancestor of the path exists
  then. A move reported done to a path that is neither a directory nor a name of the
  source puts the source's content there.
\<close>

lemma archive_move_shape:
  fixes w c input_folder root filename s file_path rel_path
  defines "fp \<equiv> join root filename"
  defines "rel \<equiv> relpath (getcwd c) fp input_folder"
  defines "pp \<equiv> join (processed_base_folder c) rel"
  defines "s' \<equiv> state_of (convert_office_file w c input_folder root filename s)"
  defines "dst \<equiv> join (processed_base_folder c) rel_path"
  defines "r \<equiv> move_to_processed w c file_path rel_path s"
  assumes closed: "closed_dirs (dirs s)"
  shows "(filter is_move (new_events s s') = [] \<or>
      (\<exists>pre l m. new_events s s' = pre @ [Makedirs (dirname pp), Move fp pp, Log l m] \<and>
          filter is_move pre = [] \<and> set (parents pp) \<subseteq> dirs s')) \<and>
     (is_raised r \<and> new_events s (state_of r) = [Makedirs (dirname dst)] \<or>
      (\<exists>l m. new_events s (state_of r) = [Makedirs (dirname dst), Move file_path dst, Log l m] \<and>
          set (parents dst) \<subseteq> dirs (state_of r) \<and>
          (l = INFO \<and> fs s file_path \<noteq> None \<and>
             (dst \<notin> dirs (state_of r) \<and> \<not> samefile w file_path dst \<longrightarrow>
                fs (state_of r) dst = fs s file_path)
           \<or> l = ERROR \<and> fs (state_of r) file_path = fs s file_path)))"
proof
  from convert_office_file_facts[of w c input_folder root filename s]
  obtain evs where t: "trace s' = trace s @ evs"
    and cl: "closed_dirs (dirs s) \<longrightarrow> closed_dirs (dirs s')"
    and sh: "filter is_move evs = [] \<or>
       (\<exists>pre l m. evs = pre @ [Makedirs (dirname pp), Move fp pp, Log l m] \<and>
               filter is_move pre = [] \<and> dirname pp \<in> dirs s')"
    unfolding s'_def fp_def rel_def pp_def by blast
  have ne: "new_events s s' = evs" by (rule new_events_append[OF t])
  from cl closed have c': "closed_dirs (dirs s')" by simp
  from sh show "filter is_move (new_events s s') = [] \<or>
      (\<exists>pre l m. new_events s s' = pre @ [Makedirs (dirname pp), Move fp pp, Log l m] \<and>
          filter is_move pre = [] \<and> set (parents pp) \<subseteq> dirs s')"
    unfolding ne using parents_in_closed[OF c', of pp] by blast
next
  show "is_raised r \<and> new_events s (state_of r) = [Makedirs (dirname dst)] \<or>
      (\<exists>l m. new_events s (state_of r) = [Makedirs (dirname dst), Move file_path dst, Log l m] \<and>
          set (parents dst) \<subseteq> dirs (state_of r) \<and>
          (l = INFO \<and> fs s file_path \<noteq> None \<and>
             (dst \<notin> dirs (state_of r) \<and> \<not> samefile w file_path dst \<longrightarrow>
                fs (state_of r) dst = fs s file_path)
           \<or> l = ERROR \<and> fs (state_of r) file_path = fs s file_path))"
  proof (cases "move_to_processed w c file_path rel_path s")
    case (Raised e s1)
    from move_to_processed_Raised[OF Raised] Raised show ?thesis
      unfolding r_def dst_def by (simp add: new_events_def)
  next
    case (Done s1)
    from move_to_processed_Done[OF Done] closed
    have c1: "closed_dirs (dirs s1)" and d1: "dirname dst \<in> dirs s1"
      and sh: "(trace s1 = trace s @ [Makedirs (dirname dst), Move file_path dst,
                  Log INFO (''Moved to Processed: '' @ rel_path)] \<and>
           fs s file_path \<noteq> None \<and>
           (dst \<notin> dirs s1 \<and> \<not> samefile w file_path dst \<longrightarrow>
              fs s1 = ((fs s)(file_path := None))(dst := fs s file_path)))
        \<or> (\<exists>e. trace s1 = trace s @ [Makedirs (dirname dst), Move file_path dst,
                Log ERROR (''Error moving file '' @ file_path @ '': '' @ str e)] \<and>
              fs s1 file_path = fs s file_path)"
      unfolding dst_def by blast+
    note p = parents_in_closed[OF c1 d1]
    from sh show ?thesis
    proof
      assume a: "trace s1 = trace s @ [Makedirs (dirname dst), Move file_path dst,
                  Log INFO (''Moved to Processed: '' @ rel_path)] \<and>
           fs s file_path \<noteq> None \<and>
           (dst \<notin> dirs s1 \<and> \<not> samefile w file_path dst \<longrightarrow>
              fs s1 = ((fs s)(file_path := None))(dst := fs s file_path))"
      then have "dst \<notin> dirs s1 \<and> \<not> samefile w file_path dst \<longrightarrow> fs s1 dst = fs s file_path"
        by auto
      with a p Done show ?thesis unfolding r_def
        by (intro disjI2 exI[of _ INFO] exI[of _ "''Moved to Processed: '' @ rel_path"])
           (simp add: new_events_def)
    next
      assume "\<exists>e. trace s1 = trace s @ [Makedirs (dirname dst), Move file_path dst,
                Log ERROR (''Error moving file '' @ file_path @ '': '' @ str e)] \<and>
              fs s1 file_path = fs s file_path"
      then obtain e where "trace s1 = trace s @ [Makedirs (dirname dst), Move file_path dst,
                Log ERROR (''Error moving file '' @ file_path @ '': '' @ str e)]"
          "fs s1 file_path = fs s file_path"
        by blast
      with p Done show ?thesis unfolding r_def
        by (intro disjI2 exI[of _ ERROR] exI[of _ "''Error moving file '' @ file_path @ '': '' @ str e"])
           (simp add: new_events_def)
    qed
  qed
qed

text \<open>The file two directories down in the sample tree keeps both directories in the archive.\<close>

lemma nested_file_is_archived_in_place:
  "filter is_move (new_events demo_state
       (state_of (convert_office_file calm demo_config ''in'' ''in/a/b'' ''data.xlsx'' demo_state))) =
     [Move ''in/a/b/data.xlsx'' ''proc/a/b/data.xlsx''] \<and>
   fs (state_of (convert_office_file calm demo_config ''in'' ''in/a/b'' ''data.xlsx'' demo_state))
      ''proc/a/b/data.xlsx'' = Some (Bytes ''data'')"
  by code_simp

text \<open>
  C9 on the code, at a file whose archive path is an existing directory: the file \<open>out\<close> of the input
  root, with relative path \<open>out\<close> and archive path \<open>proc/out\<close>, when \<open>proc/out\<close> is a
  directory. \<open>move_to_processed\<close> calls \<open>shutil.move\<close> with the archive path and reports the
  move done; the file is not at the archive path but one level below it, at
  \<open>proc/out/out\<close>. The same happens when the file is processed by the loop body.
\<close>

theorem move_into_existing_directory:
  "join (processed_base_folder demo_config)
      (relpath (getcwd demo_config) (join ''in'' ''out'') ''in'') = ''proc/out'' \<and>
   trace (state_of (move_to_processed calm demo_config ''in/out'' ''out'' clash_state)) =
     [Makedirs ''proc'', Move ''in/out'' ''proc/out'', Log INFO ''Moved to Processed: out''] \<and>
   fs (state_of (move_to_processed calm demo_config ''in/out'' ''out'' clash_state))
      ''proc/out'' = None \<and>
   fs (state_of (move_to_processed calm demo_config ''in/out'' ''out'' clash_state))
      ''proc/out/out'' = Some (Bytes ''notes'') \<and>
   Log INFO ''Moved to Processed: out''
     \<in> set (trace (state_of (convert_office_file calm demo_config ''in'' ''in'' ''out''
                               clash_state))) \<and>
   fs (state_of (convert_office_file calm demo_config ''in'' ''in'' ''out'' clash_state))
      ''proc/out'' = None \<and>
   fs (state_of (convert_office_file calm demo_config ''in'' ''in'' ''out'' clash_state))
      ''proc/out/out'' = Some (Bytes ''notes'')"
proof -
  have a: "join (processed_base_folder demo_config)
      (relpath (getcwd demo_config) (join ''in'' ''out'') ''in'') = ''proc/out''"
    by code_simp
  have b: "trace (state_of (move_to_processed calm demo_config ''in/out'' ''out'' clash_state)) =
     [Makedirs ''proc'', Move ''in/out'' ''proc/out'', Log INFO ''Moved to Processed: out'']"
    by code_simp
  have c: "fs (state_of (move_to_processed calm demo_config ''in/out'' ''out'' clash_state))
      ''proc/out'' = None"
    by code_simp
  have d: "fs (state_of (move_to_processed calm demo_config ''in/out'' ''out'' clash_state))
      ''proc/out/out'' = Some (Bytes ''notes'')"
    by code_simp
  have e: "Log INFO ''Moved to Processed: out''
     \<in> set (trace (state_of (convert_office_file calm demo_config ''in'' ''in'' ''out''
                               clash_state)))"
    by code_simp
  have f: "fs (state_of (convert_office_file calm demo_config ''in'' ''in'' ''out'' clash_state))
      ''proc/out'' = None"
    by code_simp
  have g: "fs (state_of (convert_office_file calm demo_config ''in'' ''in'' ''out'' clash_state))
      ''proc/out/out'' = Some (Bytes ''notes'')"
    by code_simp
  from a b c d e f g show ?thesis by (intro conjI)
qed

text \<open>
  C3, amended. When the destination path in the output tree exists before
  a file is processed (and the directory check before it passes), no Office application
  is run for the file, the skip is logged, and \<open>move_to_processed\<close> is all that follows:
  \<open>os.makedirs\<close> of the archive directory, whose exception ends the run with nothing
  changed, and then one call of \<open>shutil.move\<close> from the source to the archive root joined
  with the relative path. A move reported done, to an archive path that is neither a
  directory nor a name of the source, has put the source's content at the archive path
  and taken it from the input path; reported done to a name of the source itself, it has
  changed no file; a move that fails is logged, processing goes on, and the source is
  still at its input path. When the source exists, the archive path is not
  a directory and the file system refuses neither call, the move is reported done. The
  state is arbitrary, so this holds for a run that follows a partial one.
\<close>

theorem existing_destination_skips_conversion:
  fixes w c input_folder root filename s
  defines "fp \<equiv> join root filename"
  defines "rel \<equiv> relpath (getcwd c) fp input_folder"
  defines "pp \<equiv> join (processed_base_folder c) rel"
  defines "out \<equiv> output_pdf_path_of c rel"
  defines "r \<equiv> convert_office_file w c input_folder root filename s"
  assumes ex: "exists s out"
    and mk: "\<not> is_raised (os_makedirs w (dirname out) s)"
  shows "filter is_convert (new_events s (state_of r)) = [] \<and>
     (is_raised r \<and>
        new_events s (state_of r) =
          [Makedirs (dirname out), Log INFO (''Skipping (already converted): '' @ rel),
           Makedirs (dirname pp)] \<and>
        fs (state_of r) = fs s \<or>
      (\<exists>l m. \<not> is_raised r \<and>
         new_events s (state_of r) =
          [Makedirs (dirname out), Log INFO (''Skipping (already converted): '' @ rel),
           Makedirs (dirname pp), Move fp pp, Log l m] \<and>
         (l = INFO \<and> m = ''Moved to Processed: '' @ rel \<and> fs s fp \<noteq> None \<and>
            (pp \<notin> dirs (state_of r) \<and> \<not> samefile w fp pp \<longrightarrow>
               fs (state_of r) pp = fs s fp \<and> fs (state_of r) fp = None) \<and>
            (pp \<notin> dirs (state_of r) \<and> samefile w fp pp \<longrightarrow> fs (state_of r) = fs s) \<or>
          l = ERROR \<and> (\<exists>e. m = ''Error moving file '' @ fp @ '': '' @ str e) \<and>
            fs (state_of r) fp = fs s fp))) \<and>
     (fs s fp \<noteq> None \<and> dirname pp \<noteq> [] \<and>
      (\<forall>t. os_raises w t (Makedirs (dirname pp)) = None) \<and>
      (\<forall>t. transfer w t (Move fp pp) = Completed) \<and> pp \<notin> dirs (state_of r) \<longrightarrow>
        \<not> is_raised r \<and>
        Log INFO (''Moved to Processed: '' @ rel) \<in> set (new_events s (state_of r)))"
proof -
  from mk obtain s1 where d: "os_makedirs w (dirname out) s = Done s1"
    by (cases "os_makedirs w (dirname out) s") auto
  from os_makedirs_Done[OF d] have t1: "trace s1 = trace s @ [Makedirs (dirname out)]"
    and f1: "fs s1 = fs s" and d1: "dirs s \<subseteq> dirs s1" by blast+
  from exists_mono[OF ex f1 d1] have ex1: "exists s1 out" .
  let ?s2 = "print_info (''Skipping (already converted): '' @ rel) s1"
  have req: "r = move_to_processed w c fp rel ?s2"
    unfolding r_def convert_office_file_def using d ex1
    by (simp add: Let_def fp_def rel_def out_def)
  have t2: "trace ?s2 = trace s @ [Makedirs (dirname out),
      Log INFO (''Skipping (already converted): '' @ rel)]" using t1 by simp
  have f2: "fs ?s2 = fs s" using f1 by simp
  have main: "filter is_convert (new_events s (state_of r)) = [] \<and>
     (is_raised r \<and>
        new_events s (state_of r) =
          [Makedirs (dirname out), Log INFO (''Skipping (already converted): '' @ rel),
           Makedirs (dirname pp)] \<and>
        fs (state_of r) = fs s \<or>
      (\<exists>l m. \<not> is_raised r \<and>
         new_events s (state_of r) =
          [Makedirs (dirname out), Log INFO (''Skipping (already converted): '' @ rel),
           Makedirs (dirname pp), Move fp pp, Log l m] \<and>
         (l = INFO \<and> m = ''Moved to Processed: '' @ rel \<and> fs s fp \<noteq> None \<and>
            (pp \<notin> dirs (state_of r) \<and> \<not> samefile w fp pp \<longrightarrow>
               fs (state_of r) pp = fs s fp \<and> fs (state_of r) fp = None) \<and>
            (pp \<notin> dirs (state_of r) \<and> samefile w fp pp \<longrightarrow> fs (state_of r) = fs s) \<or>
          l = ERROR \<and> (\<exists>e. m = ''Error moving file '' @ fp @ '': '' @ str e) \<and>
            fs (state_of r) fp = fs s fp)))"
  proof (cases "move_to_processed w c fp rel ?s2")
    case (Raised e s3)
    from move_to_processed_Raised[OF Raised] Raised t2 f2 show ?thesis
      unfolding req pp_def by (simp add: new_events_def)
  next
    case (Done s3)
    from move_to_processed_Done[OF Done]
    have sh: "(trace s3 = trace ?s2 @ [Makedirs (dirname pp), Move fp pp,
                  Log INFO (''Moved to Processed: '' @ rel)] \<and>
           fs ?s2 fp \<noteq> None \<and>
           (pp \<notin> dirs s3 \<and> \<not> samefile w fp pp \<longrightarrow>
              fs s3 = ((fs ?s2)(fp := None))(pp := fs ?s2 fp)) \<and>
           (pp \<notin> dirs s3 \<and> samefile w fp pp \<longrightarrow> fs s3 = fs ?s2))
        \<or> (\<exists>e. trace s3 = trace ?s2 @ [Makedirs (dirname pp), Move fp pp,
                Log ERROR (''Error moving file '' @ fp @ '': '' @ str e)] \<and>
              fs s3 fp = fs ?s2 fp)"
      unfolding pp_def by blast
    from sh show ?thesis
    proof
      assume a: "trace s3 = trace ?s2 @ [Makedirs (dirname pp), Move fp pp,
                  Log INFO (''Moved to Processed: '' @ rel)] \<and>
           fs ?s2 fp \<noteq> None \<and>
           (pp \<notin> dirs s3 \<and> \<not> samefile w fp pp \<longrightarrow>
              fs s3 = ((fs ?s2)(fp := None))(pp := fs ?s2 fp)) \<and>
           (pp \<notin> dirs s3 \<and> samefile w fp pp \<longrightarrow> fs s3 = fs ?s2)"
      have ne: "\<not> samefile w fp pp \<Longrightarrow> fp \<noteq> pp" by (auto simp: samefile_def)
      from a t2 have "filter is_convert (new_events s s3) = []"
        and "new_events s s3 =
          [Makedirs (dirname out), Log INFO (''Skipping (already converted): '' @ rel),
           Makedirs (dirname pp), Move fp pp, Log INFO (''Moved to Processed: '' @ rel)]"
        by (auto simp: new_events_def)
      moreover from a f2 have "fs s fp \<noteq> None" by simp
      moreover from a f2 ne have "pp \<notin> dirs s3 \<and> \<not> samefile w fp pp \<longrightarrow>
          fs s3 pp = fs s fp \<and> fs s3 fp = None"
        by auto
      moreover from a f2 have "pp \<notin> dirs s3 \<and> samefile w fp pp \<longrightarrow> fs s3 = fs s"
        by auto
      ultimately show ?thesis unfolding req Done by simp
    next
      assume "\<exists>e. trace s3 = trace ?s2 @ [Makedirs (dirname pp), Move fp pp,
                Log ERROR (''Error moving file '' @ fp @ '': '' @ str e)] \<and>
              fs s3 fp = fs ?s2 fp"
      then obtain e where a: "trace s3 = trace ?s2 @ [Makedirs (dirname pp), Move fp pp,
                Log ERROR (''Error moving file '' @ fp @ '': '' @ str e)]" "fs s3 fp = fs ?s2 fp"
        by blast
      from a t2 have "filter is_convert (new_events s s3) = []"
        and "new_events s s3 =
          [Makedirs (dirname out), Log INFO (''Skipping (already converted): '' @ rel),
           Makedirs (dirname pp), Move fp pp,
           Log ERROR (''Error moving file '' @ fp @ '': '' @ str e)]"
        by (auto simp: new_events_def)
      moreover from a f2 have "fs s3 fp = fs s fp" by simp
      moreover have "\<exists>e'. ''Error moving file '' @ fp @ '': '' @ str e =
          ''Error moving file '' @ fp @ '': '' @ str e'" by (rule exI[of _ e]) (rule refl)
      ultimately show ?thesis unfolding req Done by simp
    qed
  qed
  have good: "fs s fp \<noteq> None \<and> dirname pp \<noteq> [] \<and>
      (\<forall>t. os_raises w t (Makedirs (dirname pp)) = None) \<and>
      (\<forall>t. transfer w t (Move fp pp) = Completed) \<and> pp \<notin> dirs (state_of r) \<longrightarrow>
        \<not> is_raised r \<and>
        Log INFO (''Moved to Processed: '' @ rel) \<in> set (new_events s (state_of r))"
  proof
    assume h: "fs s fp \<noteq> None \<and> dirname pp \<noteq> [] \<and>
      (\<forall>t. os_raises w t (Makedirs (dirname pp)) = None) \<and>
      (\<forall>t. transfer w t (Move fp pp) = Completed) \<and> pp \<notin> dirs (state_of r)"
    from h f2 have src: "fs ?s2 fp \<noteq> None" by simp
    from move_to_processed_completes[OF src, of c rel w] h
    obtain s3 where "move_to_processed w c fp rel ?s2 = Done s3"
      "trace s3 = trace ?s2 @ [Makedirs (dirname pp), Move fp pp,
         Log INFO (''Moved to Processed: '' @ rel)]"
      unfolding req pp_def by blast
    with t2 show "\<not> is_raised r \<and>
        Log INFO (''Moved to Processed: '' @ rel) \<in> set (new_events s (state_of r))"
      unfolding req by (simp add: new_events_def)
  qed
  from main good show ?thesis by blast
qed

theorem existing_destination_skips_conversion_witness:
  "exists rerun_state (output_pdf_path_of demo_config
      (relpath (getcwd demo_config) (join ''in/a'' ''report.docx'') ''in'')) \<and>
   \<not> is_raised (os_makedirs calm (dirname (output_pdf_path_of demo_config
      (relpath (getcwd demo_config) (join ''in/a'' ''report.docx'') ''in''))) rerun_state) \<and>
   filter is_convert (new_events rerun_state
      (state_of (convert_office_file calm demo_config ''in'' ''in/a'' ''report.docx'' rerun_state))) = [] \<and>
   \<not> is_raised (convert_office_file calm demo_config ''in'' ''in/a'' ''report.docx'' rerun_state) \<and>
   Log INFO (''Moved to Processed: '' @
               relpath (getcwd demo_config) (join ''in/a'' ''report.docx'') ''in'')
     \<in> set (new_events rerun_state
          (state_of (convert_office_file calm demo_config ''in'' ''in/a'' ''report.docx''
                       rerun_state))) \<and>
   fs (state_of (convert_office_file calm demo_config ''in'' ''in/a'' ''report.docx'' rerun_state))
      (join (processed_base_folder demo_config)
         (relpath (getcwd demo_config) (join ''in/a'' ''report.docx'') ''in'')) =
     fs rerun_state (join ''in/a'' ''report.docx'') \<and>
   fs (state_of (convert_office_file calm demo_config ''in'' ''in/a'' ''report.docx'' rerun_state))
      (join ''in/a'' ''report.docx'') = None \<and>
   samefile calm (join ''in/a'' ''report.docx'')
      (join (processed_base_folder inplace_config)
         (relpath (getcwd inplace_config) (join ''in/a'' ''report.docx'') ''in'')) \<and>
   fs (state_of (convert_office_file calm inplace_config ''in'' ''in/a'' ''report.docx''
                   rerun_state)) = fs rerun_state"
proof -
  let ?r = "convert_office_file calm demo_config ''in'' ''in/a'' ''report.docx'' rerun_state"
  let ?fp = "join ''in/a'' ''report.docx''"
  let ?rel = "relpath (getcwd demo_config) ?fp ''in''"
  let ?pp = "join (processed_base_folder demo_config) ?rel"
  have h1: "exists rerun_state (output_pdf_path_of demo_config ?rel)"
    by code_simp
  have h2: "\<not> is_raised (os_makedirs calm (dirname (output_pdf_path_of demo_config ?rel)) rerun_state)"
    by code_simp
  have g1: "fs rerun_state ?fp \<noteq> None" by code_simp
  have g2: "dirname ?pp \<noteq> []" by code_simp
  have g3: "\<forall>t e. os_raises calm t e = None" by (simp add: calm_def)
  have g4: "\<forall>t e. transfer calm t e = Completed" by (simp add: calm_def)
  have g5: "?pp \<notin> dirs (state_of ?r)" by code_simp
  have g6: "\<not> samefile calm ?fp ?pp" by code_simp
  note t = existing_destination_skips_conversion[OF h1 h2]
  from t have c: "filter is_convert (new_events rerun_state (state_of ?r)) = []" by blast
  from t g1 g2 g3 g4 g5 have l: "\<not> is_raised ?r"
    "Log INFO (''Moved to Processed: '' @ ?rel) \<in> set (new_events rerun_state (state_of ?r))"
    by blast+
  from t l(1) obtain l m where
    e: "new_events rerun_state (state_of ?r) =
          [Makedirs (dirname (output_pdf_path_of demo_config ?rel)),
           Log INFO (''Skipping (already converted): '' @ ?rel),
           Makedirs (dirname ?pp), Move ?fp ?pp, Log l m]"
    and x: "l = INFO \<and> m = ''Moved to Processed: '' @ ?rel \<and> fs rerun_state ?fp \<noteq> None \<and>
            (?pp \<notin> dirs (state_of ?r) \<and> \<not> samefile calm ?fp ?pp \<longrightarrow>
               fs (state_of ?r) ?pp = fs rerun_state ?fp \<and> fs (state_of ?r) ?fp = None) \<and>
            (?pp \<notin> dirs (state_of ?r) \<and> samefile calm ?fp ?pp \<longrightarrow>
               fs (state_of ?r) = fs rerun_state) \<or>
          l = ERROR \<and> (\<exists>e. m = ''Error moving file '' @ ?fp @ '': '' @ str e) \<and>
            fs (state_of ?r) ?fp = fs rerun_state ?fp"
    by blast
  from l(2) e have "l = INFO" by auto
  with x g5 g6 have f: "fs (state_of ?r) ?pp = fs rerun_state ?fp" "fs (state_of ?r) ?fp = None"
    by auto
  let ?q = "convert_office_file calm inplace_config ''in'' ''in/a'' ''report.docx'' rerun_state"
  let ?relq = "relpath (getcwd inplace_config) ?fp ''in''"
  let ?ppq = "join (processed_base_folder inplace_config) ?relq"
  have k1: "exists rerun_state (output_pdf_path_of inplace_config ?relq)"
    by code_simp
  have k2: "\<not> is_raised (os_makedirs calm (dirname (output_pdf_path_of inplace_config ?relq))
                          rerun_state)"
    by code_simp
  have k3: "dirname ?ppq \<noteq> []" by code_simp
  have k4: "?ppq \<notin> dirs (state_of ?q)" by code_simp
  have k5: "samefile calm ?fp ?ppq" by code_simp
  note u = existing_destination_skips_conversion[OF k1 k2]
  from u g1 k3 g3 g4 k4 have n: "\<not> is_raised ?q"
    "Log INFO (''Moved to Processed: '' @ ?relq) \<in> set (new_events rerun_state (state_of ?q))"
    by blast+
  from u n(1) obtain l' m' where
    e': "new_events rerun_state (state_of ?q) =
          [Makedirs (dirname (output_pdf_path_of inplace_config ?relq)),
           Log INFO (''Skipping (already converted): '' @ ?relq),
           Makedirs (dirname ?ppq), Move ?fp ?ppq, Log l' m']"
    and x': "l' = INFO \<and> (?ppq \<notin> dirs (state_of ?q) \<and> samefile calm ?fp ?ppq \<longrightarrow>
               fs (state_of ?q) = fs rerun_state) \<or>
          l' = ERROR"
    by blast
  from n(2) e' have "l' = INFO" by auto
  with x' k4 k5 have f': "fs (state_of ?q) = fs rerun_state" by auto
  from h1 h2 c l f k5 f' show ?thesis by (intro conjI)
qed

text \<open>
  C3, as the claim states it, fails: \<open>move_to_processed\<close> catches the exception of
  \<open>shutil.move\<close>. A second run over a tree whose \<open>a/report.docx\<close> was converted before, when
  the file system refuses the move: no conversion, the skip is logged, the error is logged, the
  run goes on, and the source is not in the archive tree but still in the input tree.
\<close>

theorem skipped_source_not_archived:
  "exists rerun_state (output_pdf_path_of demo_config
      (relpath (getcwd demo_config) (join ''in/a'' ''report.docx'') ''in'')) \<and>
   convert_office_file move_refused demo_config ''in'' ''in/a'' ''report.docx'' rerun_state =
     Done (state_of (convert_office_file move_refused demo_config ''in'' ''in/a'' ''report.docx''
                       rerun_state)) \<and>
   trace (state_of (convert_office_file move_refused demo_config ''in'' ''in/a'' ''report.docx''
                      rerun_state)) =
     [Makedirs ''out/a'', Log INFO ''Skipping (already converted): a/report.docx'',
      Makedirs ''proc/a'', Move ''in/a/report.docx'' ''proc/a/report.docx'',
      Log ERROR ''Error moving file in/a/report.docx: Permission denied''] \<and>
   fs (state_of (convert_office_file move_refused demo_config ''in'' ''in/a'' ''report.docx''
                   rerun_state)) ''proc/a/report.docx'' = None \<and>
   fs (state_of (convert_office_file move_refused demo_config ''in'' ''in/a'' ''report.docx''
                   rerun_state)) ''in/a/report.docx'' = Some (Bytes ''report'')"
proof -
  have a: "exists rerun_state (output_pdf_path_of demo_config
      (relpath (getcwd demo_config) (join ''in/a'' ''report.docx'') ''in''))"
    by code_simp
  have b: "\<not> is_raised (convert_office_file move_refused demo_config ''in'' ''in/a''
                          ''report.docx'' rerun_state)"
    by code_simp
  have b': "convert_office_file move_refused demo_config ''in'' ''in/a'' ''report.docx'' rerun_state =
     Done (state_of (convert_office_file move_refused demo_config ''in'' ''in/a'' ''report.docx''
                       rerun_state))"
    using b by (cases "convert_office_file move_refused demo_config ''in'' ''in/a''
                          ''report.docx'' rerun_state") simp_all
  have c: "trace (state_of (convert_office_file move_refused demo_config ''in'' ''in/a'' ''report.docx''
                      rerun_state)) =
     [Makedirs ''out/a'', Log INFO ''Skipping (already converted): a/report.docx'',
      Makedirs ''proc/a'', Move ''in/a/report.docx'' ''proc/a/report.docx'',
      Log ERROR ''Error moving file in/a/report.docx: Permission denied'']"
    by code_simp
  have d: "fs (state_of (convert_office_file move_refused demo_config ''in'' ''in/a'' ''report.docx''
                   rerun_state)) ''proc/a/report.docx'' = None"
    by code_simp
  have e: "fs (state_of (convert_office_file move_refused demo_config ''in'' ''in/a'' ''report.docx''
                   rerun_state)) ''in/a/report.docx'' = Some (Bytes ''report'')"
    by code_simp
  from a b' c d e show ?thesis by (intro conjI)
qed



text \<open>
  C1 on the code. \<open>copy_to_output\<close> joins its argument to \<open>processed_base_folder\<close>, and the
  loop hands it \<open>output_pdf_path\<close>, not the relative path. With relative roots \<open>out\<close> and
  \<open>proc\<close>, \<open>readme.txt\<close> is copied to \<open>proc/out/readme.pdf\<close> and nothing is written at
  \<open>out/readme.txt\<close>; with absolute roots the copy lands in the output tree, as
  \<open>readme.pdf\<close>. The source is archived at \<open>proc/readme.txt\<close> as the claim says.
\<close>

theorem unsupported_copy_misses_output_path:
  "fs (state_of (convert_office_file calm demo_config ''in'' ''in'' ''readme.txt'' demo_state))
      ''out/readme.txt'' = None \<and>
   fs (state_of (convert_office_file calm demo_config ''in'' ''in'' ''readme.txt'' demo_state))
      ''proc/out/readme.pdf'' = Some (Bytes ''hello'') \<and>
   new_events demo_state
      (state_of (convert_office_file calm demo_config ''in'' ''in'' ''readme.txt'' demo_state)) =
     [Makedirs ''out'', Log INFO ''Skipping (unsupported file): readme.txt'',
      Makedirs ''proc/out'', Copy ''in/readme.txt'' ''proc/out/readme.pdf'',
      Log INFO ''Copy to Output: out/readme.pdf'',
      Makedirs ''proc'', Move ''in/readme.txt'' ''proc/readme.txt'',
      Log INFO ''Moved to Processed: readme.txt''] \<and>
   fs (state_of (convert_office_file calm abs_config ''/data/in'' ''/data/in'' ''readme.txt'' abs_state))
      ''/data/out/readme.txt'' = None \<and>
   fs (state_of (convert_office_file calm abs_config ''/data/in'' ''/data/in'' ''readme.txt'' abs_state))
      ''/data/out/readme.pdf'' = Some (Bytes ''hello'')"
  by code_simp

end
